theory Spec2Isabelle
  imports Main
begin

section \<open>JavaScript string primitives\<close>

text \<open>
  Strings are lists of code units below 256 (\<^typ>\<open>char\<close>). On that range the white space of
  JavaScript (\<^verbatim>\<open>\s\<close> in a regular expression, and what \<^verbatim>\<open>trim\<close> strips) is tab, line
  feed, vertical tab, form feed, carriage return, space and the no-break space 0xA0;
  \<^verbatim>\<open>toLowerCase\<close> maps A-Z and the upper-case letters of Latin-1 (0xC0-0xDE except
  0xD7) to the code unit 32 above.
\<close>

definition is_space :: "char \<Rightarrow> bool" where
  "is_space c = (of_char c \<in> {9, 10, 11, 12, 13, 32, 160 :: nat})"

definition to_lower :: "char \<Rightarrow> char" where
  "to_lower c =
     (let n = of_char c :: nat
      in if (65 \<le> n \<and> n \<le> 90) \<or> (192 \<le> n \<and> n \<le> 222 \<and> n \<noteq> 215)
         then char_of (n + 32) else c)"

definition toLowerCase :: "string \<Rightarrow> string" where
  "toLowerCase s = map to_lower s"

definition trim :: "string \<Rightarrow> string" where
  "trim s = rev (dropWhile is_space (rev (dropWhile is_space s)))"

text \<open>\<^verbatim>\<open>s.includes(pat)\<close> and \<^verbatim>\<open>s.startsWith(pat)\<close>.\<close>

fun js_includes :: "string \<Rightarrow> string \<Rightarrow> bool" where
  "js_includes [] pat = (pat = [])"
| "js_includes (c # cs) pat = (take (length pat) (c # cs) = pat \<or> js_includes cs pat)"

definition startsWith :: "string \<Rightarrow> string \<Rightarrow> bool" where
  "startsWith s pat = (take (length pat) s = pat)"

text \<open>\<^verbatim>\<open>s.split(',')\<close>: the pieces between the separators, at least one piece.\<close>

fun split_on :: "char \<Rightarrow> string \<Rightarrow> string list" where
  "split_on sep [] = [[]]"
| "split_on sep (c # cs) =
     (if c = sep then [] # split_on sep cs
      else (case split_on sep cs of
              [] \<Rightarrow> [[c]]
            | p # ps \<Rightarrow> (c # p) # ps))"

text \<open>A number inside a template literal: its decimal digits.\<close>

function decimal :: "nat \<Rightarrow> string" where
  "decimal n =
     (if n < 10 then [char_of (48 + n)]
      else decimal (n div 10) @ [char_of (48 + n mod 10)])"
  by pat_completeness auto
termination
  by (relation "measure id") auto

declare decimal.simps [simp del]

definition dq :: string where
  "dq = [CHR 0x22]"

section \<open>Title normalisation\<close>

text \<open>
  The chain of \<^verbatim>\<open>replace\<close> calls of \<^verbatim>\<open>normalizeTitle\<close> (the same text in the upload
  and in the update script). A global replace scans from the left, takes the leftmost
  match, and goes on after it.

  \<^verbatim>\<open>.replace(/<[^>]*>/g, '')\<close>: a \<^verbatim>\<open><\<close> matches when a \<^verbatim>\<open>>\<close> follows somewhere, up
  to the first one.
\<close>

function strip_tags :: "string \<Rightarrow> string" where
  "strip_tags [] = []"
| "strip_tags (c # cs) =
     (if c = CHR ''<'' \<and> CHR ''>'' \<in> set cs
      then strip_tags (tl (dropWhile (\<lambda>x. x \<noteq> CHR ''>'') cs))
      else c # strip_tags cs)"
  by pat_completeness auto
termination
proof (relation "measure length")
  fix c :: char and cs :: string
  have "length (tl (dropWhile (\<lambda>x. x \<noteq> CHR ''>'') cs)) \<le> length cs"
    using length_dropWhile_le [of "\<lambda>x. x \<noteq> CHR ''>''" cs] by simp
  then show "(tl (dropWhile (\<lambda>x. x \<noteq> CHR ''>'') cs), c # cs) \<in> measure length"
    by simp
qed simp_all

text \<open>\<^verbatim>\<open>.replace(/lit/g, rep)\<close> for a literal, non-empty pattern.\<close>

function replace_all :: "string \<Rightarrow> string \<Rightarrow> string \<Rightarrow> string" where
  "replace_all pat rep [] = []"
| "replace_all pat rep (c # cs) =
     (if take (length pat) (c # cs) = pat
      then rep @ replace_all pat rep (drop (length pat - 1) cs)
      else c # replace_all pat rep cs)"
  by pat_completeness auto
termination
  by (relation "measure (\<lambda>(pat, rep, s). length s)") simp_all

text \<open>
  \<^verbatim>\<open>.replace(/&[^;]+;/g, '')\<close>: an ampersand matches when the next character is not a
  semicolon and a semicolon follows; the match ends at the first semicolon.
\<close>

definition ent_at :: "char \<Rightarrow> string \<Rightarrow> bool" where
  "ent_at c cs = (c = CHR ''&'' \<and> cs \<noteq> [] \<and> hd cs \<noteq> CHR '';'' \<and> CHR '';'' \<in> set cs)"

function remove_entities :: "string \<Rightarrow> string" where
  "remove_entities [] = []"
| "remove_entities (c # cs) =
     (if ent_at c cs
      then remove_entities (tl (dropWhile (\<lambda>x. x \<noteq> CHR '';'') cs))
      else c # remove_entities cs)"
  by pat_completeness auto
termination
proof (relation "measure length")
  fix c :: char and cs :: string
  have "length (tl (dropWhile (\<lambda>x. x \<noteq> CHR '';'') cs)) \<le> length cs"
    using length_dropWhile_le [of "\<lambda>x. x \<noteq> CHR '';''" cs] by simp
  then show "(tl (dropWhile (\<lambda>x. x \<noteq> CHR '';'') cs), c # cs) \<in> measure length"
    by simp
qed simp_all

text \<open>\<^verbatim>\<open>.replace(/\s+/g, ' ')\<close>.\<close>

function collapse_ws :: "string \<Rightarrow> string" where
  "collapse_ws [] = []"
| "collapse_ws (c # cs) =
     (if is_space c then CHR '' '' # collapse_ws (dropWhile is_space cs)
      else c # collapse_ws cs)"
  by pat_completeness auto
termination
proof (relation "measure length")
  fix c :: char and cs :: string
  show "(dropWhile is_space cs, c # cs) \<in> measure length"
    using length_dropWhile_le [of is_space cs] by simp
qed simp_all

definition normalizeTitle :: "string \<Rightarrow> string" where
  "normalizeTitle str =
     (if str = [] then []
      else trim (toLowerCase (collapse_ws (remove_entities
        (replace_all ''&#038;'' ''&''
        (replace_all ''&#39;'' [CHR 0x27]
        (replace_all ''&#8216;'' [CHR 0x27]
        (replace_all ''&#8217;'' [CHR 0x27]
        (replace_all ''&quot;'' [CHR 0x22]
        (replace_all ''&amp;'' ''&''
        (replace_all ''&nbsp;'' '' ''
        (strip_tags str))))))))))))"

text \<open>
  What each stage of the chain establishes: no tag is left (every \<^verbatim>\<open>>\<close> stands before
  every \<^verbatim>\<open><\<close>), no entity is left, white space is single spaces.
\<close>

fun notag :: "string \<Rightarrow> bool" where
  "notag [] = True"
| "notag (c # cs) = ((c \<noteq> CHR ''<'' \<or> CHR ''>'' \<notin> set cs) \<and> notag cs)"

fun noent :: "string \<Rightarrow> bool" where
  "noent [] = True"
| "noent (c # cs) = (\<not> ent_at c cs \<and> noent cs)"

fun wsnorm :: "string \<Rightarrow> bool" where
  "wsnorm [] = True"
| "wsnorm (c # cs) =
     ((\<not> is_space c \<or> (c = CHR '' '' \<and> (cs = [] \<or> \<not> is_space (hd cs)))) \<and> wsnorm cs)"

section \<open>Google Drive share links\<close>

text \<open>The character class \<^verbatim>\<open>[a-zA-Z0-9_-]\<close>.\<close>

definition is_id_char :: "char \<Rightarrow> bool" where
  "is_id_char c =
     (let n = of_char c :: nat
      in (97 \<le> n \<and> n \<le> 122) \<or> (65 \<le> n \<and> n \<le> 90) \<or> (48 \<le> n \<and> n \<le> 57)
         \<or> c = CHR ''_'' \<or> c = CHR ''-'')"

text \<open>
  \<^verbatim>\<open>url.match(/lit([a-zA-Z0-9_-]+)/)\<close>: the leftmost place where the literal is followed by
  an identifier character; the group is the longest run of identifier characters there.
\<close>

fun match_id_after :: "string \<Rightarrow> string \<Rightarrow> string option" where
  "match_id_after pat [] = None"
| "match_id_after pat (c # cs) =
     (if take (length pat) (c # cs) = pat
         \<and> takeWhile is_id_char (drop (length pat) (c # cs)) \<noteq> []
      then Some (takeWhile is_id_char (drop (length pat) (c # cs)))
      else match_id_after pat cs)"

definition direct_download :: "string \<Rightarrow> string" where
  "direct_download fileId = ''https://drive.google.com/uc?export=download&id='' @ fileId"

definition convertGoogleDriveUrl :: "string \<Rightarrow> string" where
  "convertGoogleDriveUrl url =
     (if url = [] then url
      else if js_includes url ''drive.google.com'' then
        (case (case match_id_after ''/d/'' url of
                 Some m \<Rightarrow> Some m
               | None \<Rightarrow> match_id_after ''id='' url) of
           Some fileId \<Rightarrow> direct_download fileId
         | None \<Rightarrow> url)
      else url)"

section \<open>Data model\<close>

text \<open>
  A row of the CSV file is an object whose keys are the column names; a column the file
  does not have is \<^verbatim>\<open>undefined\<close>. \<^verbatim>\<open>row.k?.trim()\<close> is truthy when the column is there and
  not blank, and its value is then the trimmed text.
\<close>

type_synonym row = "string \<Rightarrow> string option"

definition field :: "row \<Rightarrow> string \<Rightarrow> string option" where
  "field row k =
     (case row k of
        None \<Rightarrow> None
      | Some v \<Rightarrow> if trim v = [] then None else Some (trim v))"

text \<open>The raw text of a column inside a template literal (only used where it is defined).\<close>

definition raw :: "row \<Rightarrow> string \<Rightarrow> string" where
  "raw row k = (case row k of None \<Rightarrow> [] | Some v \<Rightarrow> v)"

text \<open>
  \<^verbatim>\<open>postData\<close> and \<^verbatim>\<open>updateData\<close>: objects built by assigning one key after the other,
  kept as the list of assignments in order.
\<close>

datatype pvalue = PStr string | PIds "nat list" | PId nat | PJson string

type_synonym payload = "(string \<times> pvalue) list"

datatype action = Created | Updated

text \<open>The \<^verbatim>\<open>result\<close> object of a row; \<^verbatim>\<open>null\<close> is \<^const>\<open>None\<close>.\<close>

record outcome =
  rowNumber :: nat
  title :: string
  action :: "action option"
  postId :: "nat option"
  status :: "string option"
  error :: "string option"

record config =
  default_status :: string
  request_delay_ms :: nat

text \<open>
  A thrown value: its \<^verbatim>\<open>message\<close>, and \<^verbatim>\<open>JSON.stringify(error.response.data)\<close> when
  \<^verbatim>\<open>error.response?.data\<close> is truthy (a failed request that got a response body).
\<close>

datatype js_error = JsError (message: string) (response_data: "string option")

definition Error :: "string \<Rightarrow> js_error" where
  "Error msg = JsError msg None"

text \<open>
  What the remote site answers. A request that succeeds is taken to answer with the
  object the REST interface documents: a post with \<^verbatim>\<open>id\<close> and \<^verbatim>\<open>status\<close>, a list of posts
  or of terms, the \<^verbatim>\<open>id\<close> of a new term or media item. The title of a post is an object
  with \<^verbatim>\<open>rendered\<close> and \<^verbatim>\<open>raw\<close>, a plain string, or missing.
\<close>

datatype wp_title = TitleObject "string option" "string option" | TitleString string | TitleMissing

record wp_post =
  post_id :: nat
  post_status :: string
  post_title :: wp_title

record wp_term =
  term_id :: nat
  term_name :: string

record download_response =
  content_type :: "string option"
  content_disposition :: "string option"
  body :: string

text \<open>The query of the listing request of the duplicate search.\<close>

record list_params =
  lp_per_page :: nat
  lp_page :: nat
  lp_status :: string
  lp_orderby :: string
  lp_order :: string

text \<open>
  The remote site, the file system and the libraries are parameters. The site and the
  file system have a state \<^typ>\<open>'w\<close> that every call may read and change, so nothing is
  assumed about what a call answers or about two calls answering alike; a request that
  fails is \<^const>\<open>Inl\<close> of the thrown value. The library functions are pure;
  \<^const>\<open>None\<close> is their \<^verbatim>\<open>false\<close>, \<^verbatim>\<open>undefined\<close> or exception, as noted where they are
  called.
\<close>

record 'w env =
  api_get_terms :: "string \<Rightarrow> string \<Rightarrow> 'w \<Rightarrow> (js_error + wp_term list) \<times> 'w"
  api_post_term :: "string \<Rightarrow> string \<Rightarrow> 'w \<Rightarrow> (js_error + nat) \<times> 'w"
  api_get_posts_by_slug :: "string \<Rightarrow> 'w \<Rightarrow> (js_error + wp_post list) \<times> 'w"
  api_get_posts_page :: "list_params \<Rightarrow> 'w \<Rightarrow> (js_error + wp_post list) \<times> 'w"
  api_get_post :: "string \<Rightarrow> 'w \<Rightarrow> (js_error + wp_post) \<times> 'w"
  api_post_posts :: "payload \<Rightarrow> 'w \<Rightarrow> (js_error + wp_post) \<times> 'w"
  api_post_post :: "nat \<Rightarrow> payload \<Rightarrow> 'w \<Rightarrow> (js_error + wp_post) \<times> 'w"
  api_post_media :: "string \<Rightarrow> string \<Rightarrow> string \<Rightarrow> 'w \<Rightarrow> (js_error + nat) \<times> 'w"
  axios_get :: "string \<Rightarrow> 'w \<Rightarrow> (js_error + download_response) \<times> 'w"
  fs_existsSync :: "string \<Rightarrow> 'w \<Rightarrow> bool \<times> 'w"
  fs_readFileSync :: "string \<Rightarrow> 'w \<Rightarrow> (js_error + string) \<times> 'w"
  path_resolve :: "string \<Rightarrow> string"
  path_basename :: "string \<Rightarrow> string"
  path_extname :: "string \<Rightarrow> string"
  url_pathname :: "string \<Rightarrow> string option"
  mime_extension :: "string \<Rightarrow> string option"
  mime_lookup :: "string \<Rightarrow> string option"
  regexp_replace_ext :: "string \<Rightarrow> string \<Rightarrow> string \<Rightarrow> string option"
  json_parse :: "string \<Rightarrow> string option"

text \<open>
  The calls a row makes, in order. The writes are the four \<^verbatim>\<open>POST\<close> requests.
\<close>

datatype event =
    Sleep nat
  | GetTerms string string
  | PostTerm string string
  | GetPostsBySlug string
  | GetPostsPage list_params
  | GetPost string
  | PostPosts payload
  | PostPost nat payload
  | PostMedia string string
  | AxiosGet string
  | ExistsSync string
  | ReadFileSync string

fun is_write :: "event \<Rightarrow> bool" where
  "is_write (PostTerm taxonomy name) = True"
| "is_write (PostPosts postData) = True"
| "is_write (PostPost i postData) = True"
| "is_write (PostMedia mimeType fileName) = True"
| "is_write e = False"

fun is_sleep :: "event \<Rightarrow> bool" where
  "is_sleep (Sleep ms) = True"
| "is_sleep e = False"

type_synonym 'w st = "'w \<times> event list"

definition call :: "('w \<Rightarrow> 'a \<times> 'w) \<Rightarrow> event \<Rightarrow> 'w st \<Rightarrow> 'a \<times> 'w st" where
  "call f ev s = (case f (fst s) of (r, w) \<Rightarrow> (r, (w, snd s @ [ev])))"

definition sleep :: "nat \<Rightarrow> 'w st \<Rightarrow> 'w st" where
  "sleep ms s = (fst s, snd s @ [Sleep ms])"

text \<open>\<^verbatim>\<open>if (id)\<close> for a number or \<^verbatim>\<open>null\<close>: zero is falsy.\<close>

definition truthy_id :: "nat option \<Rightarrow> nat option" where
  "truthy_id i = (case i of None \<Rightarrow> None | Some n \<Rightarrow> if n = 0 then None else Some n)"

section \<open>Term resolver\<close>

definition getOrCreateTerm ::
  "'w env \<Rightarrow> config \<Rightarrow> string \<Rightarrow> string \<Rightarrow> 'w st \<Rightarrow> nat option \<times> 'w st" where
  "getOrCreateTerm env config name taxonomy s =
     (if trim name = [] then (None, s)
      else
        (case call (api_get_terms env taxonomy (trim name)) (GetTerms taxonomy (trim name)) s of
           (Inl e, s1) \<Rightarrow> (None, s1)
         | (Inr terms, s1) \<Rightarrow>
             (case find (\<lambda>t. toLowerCase (term_name t) = toLowerCase (trim name)) terms of
                Some existing \<Rightarrow> (Some (term_id existing), s1)
              | None \<Rightarrow>
                  (case call (api_post_term env taxonomy (trim name)) (PostTerm taxonomy (trim name))
                          (sleep (request_delay_ms config) s1) of
                     (Inl e, s2) \<Rightarrow> (None, s2)
                   | (Inr i, s2) \<Rightarrow> (Some i, s2)))))"

fun resolve_names ::
  "'w env \<Rightarrow> config \<Rightarrow> string \<Rightarrow> string list \<Rightarrow> nat list \<Rightarrow> 'w st \<Rightarrow> nat list \<times> 'w st" where
  "resolve_names env config taxonomy [] termIds s = (termIds, s)"
| "resolve_names env config taxonomy (name # names) termIds s =
     (case getOrCreateTerm env config name taxonomy s of
        (i, s1) \<Rightarrow>
          resolve_names env config taxonomy names
            (case truthy_id i of Some n \<Rightarrow> termIds @ [n] | None \<Rightarrow> termIds)
            (sleep (request_delay_ms config) s1))"

definition term_names :: "string \<Rightarrow> string list" where
  "term_names termString = filter (\<lambda>n. n \<noteq> []) (map trim (split_on CHR '','' termString))"

definition resolveTerms ::
  "'w env \<Rightarrow> config \<Rightarrow> string \<Rightarrow> string \<Rightarrow> 'w st \<Rightarrow> nat list \<times> 'w st" where
  "resolveTerms env config termString taxonomy s =
     (if trim termString = [] then ([], s)
      else resolve_names env config taxonomy (term_names termString) [] s)"

section \<open>Duplicate detector\<close>

definition findPostBySlug :: "'w env \<Rightarrow> string \<Rightarrow> 'w st \<Rightarrow> nat option \<times> 'w st" where
  "findPostBySlug env slug s =
     (if trim slug = [] then (None, s)
      else
        (case call (api_get_posts_by_slug env (trim slug)) (GetPostsBySlug (trim slug)) s of
           (Inl e, s1) \<Rightarrow> (None, s1)
         | (Inr [], s1) \<Rightarrow> (None, s1)
         | (Inr (p # ps), s1) \<Rightarrow> (Some (post_id p), s1)))"

definition findPostById :: "'w env \<Rightarrow> string \<Rightarrow> 'w st \<Rightarrow> nat option \<times> 'w st" where
  "findPostById env ref s =
     (if ref = [] then (None, s)
      else
        (case call (api_get_post env ref) (GetPost ref) s of
           (Inl e, s1) \<Rightarrow> (None, s1)
         | (Inr p, s1) \<Rightarrow> (Some (post_id p), s1)))"

text \<open>
  \<^verbatim>\<open>post.title?.rendered || post.title?.raw || post.title || ''\<close>. A title object whose
  \<^verbatim>\<open>rendered\<close> and \<^verbatim>\<open>raw\<close> are both falsy is itself the value (\<^const>\<open>None\<close> here):
  \<^verbatim>\<open>normalizeTitle\<close> then calls \<^verbatim>\<open>replace\<close> on an object, which throws a TypeError.
\<close>

fun postTitleRaw :: "wp_title \<Rightarrow> string option" where
  "postTitleRaw (TitleObject rendered raw_title) =
     (case rendered of
        Some r \<Rightarrow> if r \<noteq> [] then Some r
                  else (case raw_title of Some x \<Rightarrow> if x \<noteq> [] then Some x else None | None \<Rightarrow> None)
      | None \<Rightarrow> (case raw_title of Some x \<Rightarrow> if x \<noteq> [] then Some x else None | None \<Rightarrow> None))"
| "postTitleRaw (TitleString t) = Some t"
| "postTitleRaw TitleMissing = Some []"

datatype scan_result = Match nat | NoMatch | TypeError

text \<open>The \<^verbatim>\<open>for\<close> loop over the posts of one page.\<close>

fun scan_page :: "string \<Rightarrow> wp_post list \<Rightarrow> scan_result" where
  "scan_page normalizedSearchTitle [] = NoMatch"
| "scan_page normalizedSearchTitle (p # ps) =
     (case postTitleRaw (post_title p) of
        None \<Rightarrow> TypeError
      | Some t \<Rightarrow>
          if normalizeTitle t = normalizedSearchTitle then Match (post_id p)
          else scan_page normalizedSearchTitle ps)"

definition listing :: "nat \<Rightarrow> list_params" where
  "listing p =
     \<lparr>lp_per_page = 100, lp_page = p, lp_status = ''any'', lp_orderby = ''date'', lp_order = ''desc''\<rparr>"

text \<open>
  The \<^verbatim>\<open>while (hasMore)\<close> loop, with \<^verbatim>\<open>page\<close> as it stands at the head of the loop. Every
  exit returns \<^verbatim>\<open>null\<close> but the match; the \<^verbatim>\<open>catch\<close> of the function turns a failed
  request and the TypeError into \<^verbatim>\<open>null\<close> as well.
\<close>

function find_pages :: "'w env \<Rightarrow> string \<Rightarrow> nat \<Rightarrow> 'w st \<Rightarrow> nat option \<times> 'w st" where
  "find_pages env normalizedSearchTitle page s =
     (case call (api_get_posts_page env (listing page)) (GetPostsPage (listing page)) s of
        (Inl e, s1) \<Rightarrow> (None, s1)
      | (Inr posts, s1) \<Rightarrow>
          if posts = [] then (None, s1)
          else
            (case scan_page normalizedSearchTitle posts of
               Match i \<Rightarrow> (Some i, s1)
             | TypeError \<Rightarrow> (None, s1)
             | NoMatch \<Rightarrow>
                 if length posts < 100 then (None, s1)
                 else if page + 1 > 10 then (None, s1)
                 else find_pages env normalizedSearchTitle (page + 1) s1))"
  by pat_completeness auto
termination
  by (relation "measure (\<lambda>(env, t, page, s). 10 - page)") auto

declare find_pages.simps [simp del]

definition findPostByTitle :: "'w env \<Rightarrow> string \<Rightarrow> 'w st \<Rightarrow> nat option \<times> 'w st" where
  "findPostByTitle env ttl s =
     (if trim ttl = [] then (None, s)
      else find_pages env (normalizeTitle ttl) 1 s)"

text \<open>
  The posts the search can reach, as the site lists them: the pages 1, 2, ... of the
  listing, each asked of the site as the one before left it, up to the first page of
  fewer than 100 posts and no further than page 10. The titles play no part in it.
\<close>

function scanned_posts :: "'w env \<Rightarrow> nat \<Rightarrow> 'w \<Rightarrow> wp_post list" where
  "scanned_posts env page w =
     (case api_get_posts_page env (listing page) w of
        (Inl e, w1) \<Rightarrow> []
      | (Inr posts, w1) \<Rightarrow>
          if length posts < 100 \<or> page + 1 > 10 then posts
          else posts @ scanned_posts env (page + 1) w1)"
  by pat_completeness auto
termination
  by (relation "measure (\<lambda>(env, page, w). 10 - page)") auto

declare scanned_posts.simps [simp del]

text \<open>
  A listed post has the title of a row when its title text normalises to the same text
  as the row's title, and another title when its title text normalises to another one; a
  post whose title object holds no text has neither.
\<close>

definition same_title :: "string \<Rightarrow> wp_post \<Rightarrow> bool" where
  "same_title ttl q =
     (case postTitleRaw (post_title q) of
        Some x \<Rightarrow> normalizeTitle x = normalizeTitle ttl
      | None \<Rightarrow> False)"

definition other_title :: "string \<Rightarrow> wp_post \<Rightarrow> bool" where
  "other_title ttl q =
     (case postTitleRaw (post_title q) of
        Some x \<Rightarrow> normalizeTitle x \<noteq> normalizeTitle ttl
      | None \<Rightarrow> False)"

section \<open>Media ingestor\<close>

text \<open>
  \<^verbatim>\<open>contentDisposition.match(/filename="?([^"]+)"?/)\<close>: the leftmost \<^verbatim>\<open>filename=\<close> that is
  followed, after an optional quote, by a character that is not a quote; the group runs
  to the next quote or to the end.
\<close>

fun match_filename :: "string \<Rightarrow> string option" where
  "match_filename [] = None"
| "match_filename (c # cs) =
     (if take 9 (c # cs) = ''filename=''
         \<and> takeWhile (\<lambda>x. x \<noteq> CHR 0x22)
              (if drop 9 (c # cs) \<noteq> [] \<and> hd (drop 9 (c # cs)) = CHR 0x22
               then tl (drop 9 (c # cs)) else drop 9 (c # cs)) \<noteq> []
      then Some (takeWhile (\<lambda>x. x \<noteq> CHR 0x22)
              (if drop 9 (c # cs) \<noteq> [] \<and> hd (drop 9 (c # cs)) = CHR 0x22
               then tl (drop 9 (c # cs)) else drop 9 (c # cs)))
      else match_filename cs)"

record downloaded =
  buffer :: string
  mimeType :: string
  fileName :: string

text \<open>\<^verbatim>\<open>a || b\<close> for strings that may be \<^verbatim>\<open>undefined\<close> or \<^verbatim>\<open>false\<close>.\<close>

definition or_else :: "string option \<Rightarrow> string \<Rightarrow> string" where
  "or_else a b = (case a of Some v \<Rightarrow> if v \<noteq> [] then v else b | None \<Rightarrow> b)"

definition truthy_str :: "string option \<Rightarrow> string option" where
  "truthy_str a = (case a of Some v \<Rightarrow> if v \<noteq> [] then Some v else None | None \<Rightarrow> None)"

text \<open>
  The upload script: what \<^verbatim>\<open>downloadImageFromUrl\<close> makes of a response. \<^const>\<open>None\<close> is
  its \<^verbatim>\<open>null\<close>: an HTML page, or an exception inside its \<^verbatim>\<open>try\<close> (\<^verbatim>\<open>new URL\<close> on a text
  that is no URL, \<^verbatim>\<open>new RegExp\<close> on an extension that is no pattern).
\<close>

definition reconcile_ext :: "'w env \<Rightarrow> string option \<Rightarrow> string \<Rightarrow> string option" where
  "reconcile_ext env contentType name =
     (case truthy_str (case contentType of Some ct \<Rightarrow> mime_extension env ct | None \<Rightarrow> None) of
        None \<Rightarrow> Some name
      | Some extFromMime \<Rightarrow>
          if remove1 CHR ''.'' (path_extname env name) \<noteq> extFromMime then
            (if remove1 CHR ''.'' (path_extname env name) = []
                \<or> remove1 CHR ''.'' (path_extname env name) = ''uc''
             then Some (name @ ''.'' @ extFromMime)
             else regexp_replace_ext env name (remove1 CHR ''.'' (path_extname env name)) extFromMime)
          else Some name)"

definition derive_name :: "'w env \<Rightarrow> string \<Rightarrow> string option \<Rightarrow> string option" where
  "derive_name env imageUrl contentDisposition =
     (case truthy_str contentDisposition of
        Some cd \<Rightarrow> (case match_filename cd of Some f \<Rightarrow> Some f | None \<Rightarrow> Some ''image.jpg'')
      | None \<Rightarrow>
          (case url_pathname env imageUrl of
             None \<Rightarrow> None
           | Some urlPath \<Rightarrow> Some (or_else (Some (path_basename env urlPath)) ''image'')))"

definition download_result :: "'w env \<Rightarrow> string \<Rightarrow> download_response \<Rightarrow> downloaded option" where
  "download_result env imageUrl response =
     (if (case truthy_str (content_type response) of
            Some ct \<Rightarrow> js_includes ct ''text/html'' | None \<Rightarrow> False)
      then None
      else
        (case derive_name env imageUrl (content_disposition response) of
           None \<Rightarrow> None
         | Some name0 \<Rightarrow>
             (case reconcile_ext env (content_type response) name0 of
                None \<Rightarrow> None
              | Some name1 \<Rightarrow>
                  Some \<lparr>buffer = body response,
                        mimeType = or_else (content_type response)
                                     (or_else (mime_lookup env imageUrl) ''image/jpeg''),
                        fileName = name1\<rparr>)))"

definition downloadImageFromUrl :: "'w env \<Rightarrow> string \<Rightarrow> 'w st \<Rightarrow> downloaded option \<times> 'w st" where
  "downloadImageFromUrl env imageUrl s =
     (case call (axios_get env imageUrl) (AxiosGet imageUrl) s of
        (Inl e, s1) \<Rightarrow> (None, s1)
      | (Inr response, s1) \<Rightarrow> (download_result env imageUrl response, s1))"

text \<open>The \<^verbatim>\<open>try\<close> block at the end of \<^verbatim>\<open>uploadMedia\<close>: the delay, then the upload.\<close>

definition send_media ::
  "'w env \<Rightarrow> nat \<Rightarrow> string \<Rightarrow> string \<Rightarrow> string \<Rightarrow> 'w st \<Rightarrow> nat option \<times> 'w st" where
  "send_media env ms fileBuffer name mime s =
     (case call (api_post_media env fileBuffer mime name) (PostMedia mime name) (sleep ms s) of
        (Inl e, s1) \<Rightarrow> (None, s1)
      | (Inr i, s1) \<Rightarrow> (Some i, s1))"

text \<open>
  Reading the local file stands outside every \<^verbatim>\<open>try\<close> of \<^verbatim>\<open>uploadMedia\<close>: when it throws,
  \<^verbatim>\<open>uploadMedia\<close> throws (\<^const>\<open>Inl\<close>).
\<close>

definition local_media ::
  "'w env \<Rightarrow> nat \<Rightarrow> string \<Rightarrow> 'w st \<Rightarrow> (js_error + nat option) \<times> 'w st" where
  "local_media env ms fullPath s =
     (case call (fs_existsSync env fullPath) (ExistsSync fullPath) s of
        (False, s1) \<Rightarrow> (Inr None, s1)
      | (True, s1) \<Rightarrow>
          (case call (fs_readFileSync env fullPath) (ReadFileSync fullPath) s1 of
             (Inl e, s2) \<Rightarrow> (Inl e, s2)
           | (Inr fileBuffer, s2) \<Rightarrow>
               (case send_media env ms fileBuffer (path_basename env fullPath)
                       (or_else (mime_lookup env fullPath) ''application/octet-stream'') s2 of
                  (r, s3) \<Rightarrow> (Inr r, s3))))"

text \<open>\<^verbatim>\<open>uploadMedia\<close> of the upload script. Its delay is the one of the default configuration.\<close>

definition uploadMedia ::
  "'w env \<Rightarrow> config \<Rightarrow> string \<Rightarrow> 'w st \<Rightarrow> (js_error + nat option) \<times> 'w st" where
  "uploadMedia env defaultConfig filePathOrUrl s =
     (if trim filePathOrUrl = [] then (Inr None, s)
      else if startsWith (trim filePathOrUrl) ''http://'' \<or> startsWith (trim filePathOrUrl) ''https://''
      then
        (case downloadImageFromUrl env (convertGoogleDriveUrl (trim filePathOrUrl)) s of
           (None, s1) \<Rightarrow> (Inr None, s1)
         | (Some d, s1) \<Rightarrow>
             (case send_media env (request_delay_ms defaultConfig) (buffer d) (fileName d) (mimeType d) s1 of
                (r, s2) \<Rightarrow> (Inr r, s2)))
      else local_media env (request_delay_ms defaultConfig) (path_resolve env (trim filePathOrUrl)) s)"

text \<open>The update script has its own \<^verbatim>\<open>downloadImageFromUrl\<close> and \<^verbatim>\<open>uploadMedia\<close>.\<close>

definition download_result_update :: "'w env \<Rightarrow> string \<Rightarrow> download_response \<Rightarrow> downloaded option" where
  "download_result_update env imageUrl response =
     (case url_pathname env imageUrl of
        None \<Rightarrow> None
      | Some urlPath \<Rightarrow>
          Some \<lparr>buffer = body response,
                mimeType = or_else (content_type response)
                             (or_else (mime_lookup env imageUrl) ''image/jpeg''),
                fileName = or_else (Some (path_basename env urlPath)) ''image.jpg''\<rparr>)"

definition downloadImageFromUrl_update ::
  "'w env \<Rightarrow> string \<Rightarrow> 'w st \<Rightarrow> downloaded option \<times> 'w st" where
  "downloadImageFromUrl_update env imageUrl s =
     (case call (axios_get env imageUrl) (AxiosGet imageUrl) s of
        (Inl e, s1) \<Rightarrow> (None, s1)
      | (Inr response, s1) \<Rightarrow> (download_result_update env imageUrl response, s1))"

definition uploadMedia_update ::
  "'w env \<Rightarrow> config \<Rightarrow> string \<Rightarrow> 'w st \<Rightarrow> (js_error + nat option) \<times> 'w st" where
  "uploadMedia_update env config filePathOrUrl s =
     (if trim filePathOrUrl = [] then (Inr None, s)
      else if startsWith (trim filePathOrUrl) ''http://'' \<or> startsWith (trim filePathOrUrl) ''https://''
      then
        (case downloadImageFromUrl_update env (trim filePathOrUrl) s of
           (None, s1) \<Rightarrow> (Inr None, s1)
         | (Some d, s1) \<Rightarrow>
             (case send_media env (request_delay_ms config) (buffer d) (fileName d) (mimeType d) s1 of
                (r, s2) \<Rightarrow> (Inr r, s2)))
      else local_media env (request_delay_ms config) (path_resolve env filePathOrUrl) s)"

section \<open>Row reconciler\<close>

text \<open>
  The row functions are given in two steps. The definitions named after
  \<^verbatim>\<open>createOrUpdatePost\<close> and \<^verbatim>\<open>updatePost\<close> are these functions as they run when every
  console output and every call of the progress callback returns: the outcome and the
  calls of a row. What a row reports at its end, on the console and to the progress
  callback, can throw; the last part of this section adds these reports to both
  functions. Console output before the end of a row is left out throughout.
\<close>

definition set_field :: "row \<Rightarrow> string \<Rightarrow> payload \<Rightarrow> payload" where
  "set_field row k data = (case field row k of Some v \<Rightarrow> data @ [(k, PStr v)] | None \<Rightarrow> data)"

text \<open>\<^verbatim>\<open>JSON.parse(row.acf_json)\<close>; a text that does not parse is logged and skipped.\<close>

definition set_acf :: "'w env \<Rightarrow> row \<Rightarrow> payload \<Rightarrow> payload" where
  "set_acf env row data =
     (case field row ''acf_json'' of
        None \<Rightarrow> data
      | Some v \<Rightarrow>
          (case json_parse env (raw row ''acf_json'') of
             Some acfData \<Rightarrow> data @ [(''acf'', PJson acfData)]
           | None \<Rightarrow> data))"

definition set_terms ::
  "'w env \<Rightarrow> config \<Rightarrow> row \<Rightarrow> string \<Rightarrow> payload \<Rightarrow> 'w st \<Rightarrow> payload \<times> 'w st" where
  "set_terms env config row taxonomy data s =
     (case field row taxonomy of
        None \<Rightarrow> (data, s)
      | Some v \<Rightarrow>
          (case resolveTerms env config (raw row taxonomy) taxonomy s of
             (ids, s1) \<Rightarrow> (if ids \<noteq> [] then data @ [(taxonomy, PIds ids)] else data, s1)))"

definition imagePath :: "row \<Rightarrow> string option" where
  "imagePath row =
     (case field row ''featured_image_path'' of
        Some p \<Rightarrow> Some p
      | None \<Rightarrow> field row ''featured_image_url'')"

definition set_media :: "nat option \<Rightarrow> payload \<Rightarrow> payload" where
  "set_media mediaId data =
     (case truthy_id mediaId of Some m \<Rightarrow> data @ [(''featured_media'', PId m)] | None \<Rightarrow> data)"

definition set_seo :: "row \<Rightarrow> payload \<Rightarrow> payload" where
  "set_seo row data =
     (case field row ''focus_keyword'' of
        Some kw \<Rightarrow> (\<lambda>d. d @ [(''_yoast_wpseo_focuskw'', PStr kw), (''rank_math_focus_keyword'', PStr kw)])
      | None \<Rightarrow> (\<lambda>d. d))
     ((case field row ''meta_description'' of
        Some md \<Rightarrow> (\<lambda>d. d @ [(''meta_description'', PStr md), (''_yoast_wpseo_metadesc'', PStr md),
                              (''rank_math_description'', PStr md)])
      | None \<Rightarrow> (\<lambda>d. d))
     ((case field row ''meta_title'' of
        Some mt \<Rightarrow> (\<lambda>d. d @ [(''meta_title'', PStr mt), (''_yoast_wpseo_title'', PStr mt),
                              (''rank_math_title'', PStr mt)])
      | None \<Rightarrow> (\<lambda>d. d)) data))"

definition new_result :: "row \<Rightarrow> nat \<Rightarrow> outcome" where
  "new_result row n =
     \<lparr>rowNumber = n, title = or_else (row ''title'') ''Untitled'', action = None, postId = None,
      status = None, error = None\<rparr>"

text \<open>
  The text of an exception, and the \<^verbatim>\<open>catch\<close> block of a row when its \<^verbatim>\<open>console.error\<close> and
  its progress event return: the outcome with the text as its error.
\<close>

definition error_text :: "js_error \<Rightarrow> string" where
  "error_text e =
     (case response_data e of Some d \<Rightarrow> message e @ '': '' @ d | None \<Rightarrow> message e)"

definition catch_row :: "(js_error option \<times> outcome) \<times> 'w st \<Rightarrow> outcome \<times> 'w st" where
  "catch_row r =
     (case r of
        ((None, result), s) \<Rightarrow> (result, s)
      | ((Some e, result), s) \<Rightarrow> (result\<lparr>error := Some (error_text e)\<rparr>, s))"

subsection \<open>Create mode\<close>

definition prepare_postData ::
  "'w env \<Rightarrow> config \<Rightarrow> config \<Rightarrow> row \<Rightarrow> string \<Rightarrow> string \<Rightarrow> 'w st \<Rightarrow> (js_error + payload) \<times> 'w st" where
  "prepare_postData env config defaultConfig row ttl content s =
     (case set_terms env config row ''categories''
             (set_acf env row (set_field row ''excerpt'' (set_field row ''slug''
                [(''title'', PStr ttl), (''content'', PStr content),
                 (''status'', PStr (or_else (field row ''status'') (default_status config)))]))) s of
        (d1, s1) \<Rightarrow>
          (case set_terms env config row ''tags'' d1 s1 of
             (d2, s2) \<Rightarrow>
               (case imagePath row of
                  None \<Rightarrow> (Inr (set_seo row d2), s2)
                | Some p \<Rightarrow>
                    (case uploadMedia env defaultConfig p s2 of
                       (Inl e, s3) \<Rightarrow> (Inl e, s3)
                     | (Inr mediaId, s3) \<Rightarrow> (Inr (set_seo row (set_media mediaId d2)), s3)))))"

definition duplicate_message :: "string \<Rightarrow> nat \<Rightarrow> string" where
  "duplicate_message ttl i =
     ''Post with title '' @ dq @ ttl @ dq @ '' already exists (ID: '' @ decimal i
       @ ''). Duplicate posts are not allowed.''"

text \<open>The last step: the delay, then the update of the post found by slug or the create.\<close>

definition submit_post ::
  "'w env \<Rightarrow> config \<Rightarrow> payload \<Rightarrow> nat option \<Rightarrow> outcome \<Rightarrow> 'w st
     \<Rightarrow> (js_error option \<times> outcome) \<times> 'w st" where
  "submit_post env config postData existingPostId result s =
     (case truthy_id existingPostId of
        Some i \<Rightarrow>
          (case call (api_post_post env i postData) (PostPost i postData)
                  (sleep (request_delay_ms config) s) of
             (Inl e, s1) \<Rightarrow> ((Some e, result), s1)
           | (Inr p, s1) \<Rightarrow>
               ((None, result\<lparr>action := Some Updated, postId := Some (post_id p),
                               status := Some (post_status p)\<rparr>), s1))
      | None \<Rightarrow>
          (case call (api_post_posts env postData) (PostPosts postData)
                  (sleep (request_delay_ms config) s) of
             (Inl e, s1) \<Rightarrow> ((Some e, result), s1)
           | (Inr p, s1) \<Rightarrow>
               ((None, result\<lparr>action := Some Created, postId := Some (post_id p),
                               status := Some (post_status p)\<rparr>), s1)))"

text \<open>
  The \<^verbatim>\<open>try\<close> block of \<^verbatim>\<open>createOrUpdatePost\<close>: the exception it ends with, if any, and
  \<^verbatim>\<open>result\<close> as it stands then.
\<close>

definition create_body ::
  "'w env \<Rightarrow> config \<Rightarrow> config \<Rightarrow> row \<Rightarrow> outcome \<Rightarrow> 'w st \<Rightarrow> (js_error option \<times> outcome) \<times> 'w st" where
  "create_body env config defaultConfig row result s =
     (case field row ''title'' of
        None \<Rightarrow> ((Some (Error ''Missing required field: title''), result), s)
      | Some ttl \<Rightarrow>
     (case field row ''content'' of
        None \<Rightarrow> ((Some (Error ''Missing required field: content''), result), s)
      | Some content \<Rightarrow>
     (case prepare_postData env config defaultConfig row ttl content s of
        (Inl e, s1) \<Rightarrow> ((Some e, result), s1)
      | (Inr postData, s1) \<Rightarrow>
     (case findPostByTitle env ttl s1 of
        (existingPostByTitle, s2) \<Rightarrow>
     (case truthy_id existingPostByTitle of
        Some d \<Rightarrow> ((Some (Error (duplicate_message ttl d)), result), s2)
      | None \<Rightarrow>
     (case (case field row ''slug'' of
              Some slug \<Rightarrow> findPostBySlug env slug s2
            | None \<Rightarrow> (None, s2)) of
        (existingPostId, s3) \<Rightarrow> submit_post env config postData existingPostId result s3))))))"

definition createOrUpdatePost ::
  "'w env \<Rightarrow> config \<Rightarrow> config \<Rightarrow> row \<Rightarrow> nat \<Rightarrow> 'w st \<Rightarrow> outcome \<times> 'w st" where
  "createOrUpdatePost env config defaultConfig row n s =
     catch_row (create_body env config defaultConfig row (new_result row n) s)"

subsection \<open>Update mode\<close>

definition not_found :: "string \<Rightarrow> string \<Rightarrow> js_error" where
  "not_found kind v = Error (''Post with '' @ kind @ '' '' @ dq @ v @ dq @ '' not found'')"

definition resolve_target :: "'w env \<Rightarrow> row \<Rightarrow> 'w st \<Rightarrow> (js_error + nat) \<times> 'w st" where
  "resolve_target env row s =
     (case field row ''post_id'' of
        Some ref \<Rightarrow>
          (case findPostById env ref s of
             (r, s1) \<Rightarrow>
               (case truthy_id r of
                  Some i \<Rightarrow> (Inr i, s1)
                | None \<Rightarrow> (Inl (not_found ''ID'' (raw row ''post_id'')), s1)))
      | None \<Rightarrow>
     (case field row ''slug'' of
        Some slug \<Rightarrow>
          (case findPostBySlug env slug s of
             (r, s1) \<Rightarrow>
               (case truthy_id r of
                  Some i \<Rightarrow> (Inr i, s1)
                | None \<Rightarrow> (Inl (not_found ''slug'' (raw row ''slug'')), s1)))
      | None \<Rightarrow>
     (case field row ''title'' of
        Some ttl \<Rightarrow>
          (case findPostByTitle env ttl s of
             (r, s1) \<Rightarrow>
               (case truthy_id r of
                  Some i \<Rightarrow> (Inr i, s1)
                | None \<Rightarrow> (Inl (not_found ''title'' (raw row ''title'')), s1)))
      | None \<Rightarrow> (Inl (Error ''Missing identifier: must provide post_id, slug, or title''), s))))"

definition prepare_updateData ::
  "'w env \<Rightarrow> config \<Rightarrow> row \<Rightarrow> 'w st \<Rightarrow> (js_error + payload) \<times> 'w st" where
  "prepare_updateData env config row s =
     (case set_terms env config row ''categories''
             (set_acf env row (set_field row ''excerpt'' (set_field row ''slug''
                (set_field row ''status'' (set_field row ''content'' (set_field row ''title'' [])))))) s of
        (d1, s1) \<Rightarrow>
          (case set_terms env config row ''tags'' d1 s1 of
             (d2, s2) \<Rightarrow>
               (case imagePath row of
                  None \<Rightarrow> (Inr d2, s2)
                | Some p \<Rightarrow>
                    (case uploadMedia_update env config p s2 of
                       (Inl e, s3) \<Rightarrow> (Inl e, s3)
                     | (Inr mediaId, s3) \<Rightarrow> (Inr (set_media mediaId d2), s3)))))"

definition nothing_to_update :: js_error where
  "nothing_to_update = Error ''No fields to update. Provide at least one field to update.''"

definition update_body ::
  "'w env \<Rightarrow> config \<Rightarrow> row \<Rightarrow> outcome \<Rightarrow> 'w st \<Rightarrow> (js_error option \<times> outcome) \<times> 'w st" where
  "update_body env config row result s =
     (case resolve_target env row s of
        (Inl e, s1) \<Rightarrow> ((Some e, result), s1)
      | (Inr i, s1) \<Rightarrow>
     (case call (api_get_post env (decimal i)) (GetPost (decimal i)) s1 of
        (Inl e, s2) \<Rightarrow> ((Some e, result\<lparr>postId := Some i\<rparr>), s2)
      | (Inr existingPost, s2) \<Rightarrow>
     (case prepare_updateData env config row s2 of
        (Inl e, s3) \<Rightarrow> ((Some e, result\<lparr>postId := Some i\<rparr>), s3)
      | (Inr updateData, s3) \<Rightarrow>
          if updateData = [] then ((Some nothing_to_update, result\<lparr>postId := Some i\<rparr>), s3)
          else
            (case call (api_post_post env i updateData) (PostPost i updateData)
                    (sleep (request_delay_ms config) s3) of
               (Inl e, s4) \<Rightarrow> ((Some e, result\<lparr>postId := Some i\<rparr>), s4)
             | (Inr p, s4) \<Rightarrow>
                 ((None, result\<lparr>action := Some Updated, postId := Some (post_id p),
                                 status := Some (post_status p)\<rparr>), s4)))))"

definition updatePost :: "'w env \<Rightarrow> config \<Rightarrow> row \<Rightarrow> nat \<Rightarrow> 'w st \<Rightarrow> outcome \<times> 'w st" where
  "updatePost env config row n s = catch_row (update_body env config row (new_result row n) s)"

subsection \<open>The reports of a row\<close>

text \<open>
  At its end a row reports twice: a message on the console and, when the caller gave a
  progress callback, an event for it. Both are built from the outcome as it stands: for
  a success the row number, the action, the post identifier and the title; for a failure
  the row number, the title and the error. The upload script redefines \<^verbatim>\<open>console.log\<close> and
  \<^verbatim>\<open>console.error\<close> to append the message to its debug log with \<^verbatim>\<open>fs.appendFileSync\<close> before
  printing it, so there both throw when the append does; the update script prints with
  the console as it is. The callback is the caller's function. Each of the three acts on
  the world and either returns or throws.
\<close>

datatype report = Success outcome | Failure outcome

record 'w reporting =
  console_log :: "report \<Rightarrow> 'w \<Rightarrow> (js_error + unit) \<times> 'w"
  console_error :: "report \<Rightarrow> 'w \<Rightarrow> (js_error + unit) \<times> 'w"
  progressCallback :: "(report \<Rightarrow> 'w \<Rightarrow> (js_error + unit) \<times> 'w) option"

text \<open>A report acts on the world; it is no call of the trace.\<close>

definition emit :: "('w \<Rightarrow> (js_error + unit) \<times> 'w) \<Rightarrow> 'w st \<Rightarrow> (js_error + unit) \<times> 'w st" where
  "emit f s = (case f (fst s) of (r, w) \<Rightarrow> (r, (w, snd s)))"

text \<open>\<^verbatim>\<open>if (progressCallback) progressCallback({...})\<close>.\<close>

definition notify :: "'w reporting \<Rightarrow> report \<Rightarrow> 'w st \<Rightarrow> (js_error + unit) \<times> 'w st" where
  "notify io r s =
     (case progressCallback io of
        None \<Rightarrow> (Inr (), s)
      | Some cb \<Rightarrow> emit (cb r) s)"

text \<open>
  The \<^verbatim>\<open>catch\<close> block in full: the error is set, then the message goes to \<^verbatim>\<open>console.error\<close>
  and the event to the callback. Nothing encloses the block, so what these two throw
  leaves the row function (\<^const>\<open>Inl\<close>).
\<close>

definition catch_block ::
  "'w reporting \<Rightarrow> js_error \<Rightarrow> outcome \<Rightarrow> 'w st \<Rightarrow> (js_error + outcome) \<times> 'w st" where
  "catch_block io e result s =
     (case emit (console_error io (Failure (result\<lparr>error := Some (error_text e)\<rparr>))) s of
        (Inl x, s1) \<Rightarrow> (Inl x, s1)
      | (Inr u, s1) \<Rightarrow>
          (case notify io (Failure (result\<lparr>error := Some (error_text e)\<rparr>)) s1 of
             (Inl x, s2) \<Rightarrow> (Inl x, s2)
           | (Inr u, s2) \<Rightarrow> (Inr (result\<lparr>error := Some (error_text e)\<rparr>), s2)))"

text \<open>
  The end of a row. After a successful write the message and the event are still inside
  the \<^verbatim>\<open>try\<close> block, with \<^verbatim>\<open>result.action\<close> already set: what they throw is caught by the
  \<^verbatim>\<open>catch\<close> block like any other exception.
\<close>

definition row_end ::
  "'w reporting \<Rightarrow> (js_error option \<times> outcome) \<times> 'w st \<Rightarrow> (js_error + outcome) \<times> 'w st" where
  "row_end io b =
     (case b of
        ((Some e, result), s) \<Rightarrow> catch_block io e result s
      | ((None, result), s) \<Rightarrow>
          (case emit (console_log io (Success result)) s of
             (Inl x, s1) \<Rightarrow> catch_block io x result s1
           | (Inr u, s1) \<Rightarrow>
               (case notify io (Success result) s1 of
                  (Inl x, s2) \<Rightarrow> catch_block io x result s2
                | (Inr u, s2) \<Rightarrow> (Inr result, s2))))"

definition createOrUpdatePost_reporting ::
  "'w reporting \<Rightarrow> 'w env \<Rightarrow> config \<Rightarrow> config \<Rightarrow> row \<Rightarrow> nat \<Rightarrow> 'w st \<Rightarrow> (js_error + outcome) \<times> 'w st" where
  "createOrUpdatePost_reporting io env config defaultConfig row n s =
     row_end io (create_body env config defaultConfig row (new_result row n) s)"

definition updatePost_reporting ::
  "'w reporting \<Rightarrow> 'w env \<Rightarrow> config \<Rightarrow> row \<Rightarrow> nat \<Rightarrow> 'w st \<Rightarrow> (js_error + outcome) \<times> 'w st" where
  "updatePost_reporting io env config row n s =
     row_end io (update_body env config row (new_result row n) s)"

section \<open>Pacing\<close>

text \<open>
  A trace is paced when every write stands right after a delay. The flag says whether the
  event before the list was a delay.
\<close>

fun delayed_after :: "bool \<Rightarrow> event list \<Rightarrow> bool" where
  "delayed_after b [] = True"
| "delayed_after b (e # es) = ((\<not> is_write e \<or> b) \<and> delayed_after (is_sleep e) es)"

definition writes_delayed :: "event list \<Rightarrow> bool" where
  "writes_delayed tr = delayed_after False tr"

text \<open>
  \<^term>\<open>extends_by k s s'\<close>: the state \<open>s'\<close> comes after \<open>s\<close> by a paced run of calls that
  has \<open>k\<close> delays more than writes.
\<close>

definition extends_by :: "nat \<Rightarrow> 'w st \<Rightarrow> 'w st \<Rightarrow> bool" where
  "extends_by k s s' =
     (\<exists>ext. snd s' = snd s @ ext \<and> writes_delayed ext
        \<and> length (filter is_sleep ext) = k + length (filter is_write ext))"

text \<open>The names in the categories or tags column of a row that has them.\<close>

definition term_count :: "row \<Rightarrow> string \<Rightarrow> nat" where
  "term_count row k = (case field row k of None \<Rightarrow> 0 | Some v \<Rightarrow> length (term_names (raw row k)))"

text \<open>
  Every delay of a trace stands next to a write (right before or right after one). The
  flag says whether the event before the list was a write.
\<close>

fun delays_by_writes :: "bool \<Rightarrow> event list \<Rightarrow> bool" where
  "delays_by_writes b [] = True"
| "delays_by_writes b (e # es) =
     ((\<not> is_sleep e \<or> b \<or> (es \<noteq> [] \<and> is_write (hd es))) \<and> delays_by_writes (is_write e) es)"

section \<open>A small site for the examples\<close>

text \<open>
  A site is its posts with their slugs, newest first. Its answers are those of the REST
  interface as far as the examples need them; every download answers with an HTML page,
  as a share link that is not public does.
\<close>

type_synonym site = "(string \<times> wp_post) list"

definition payload_text :: "payload \<Rightarrow> string \<Rightarrow> string" where
  "payload_text data k = (case map_of data k of Some (PStr v) \<Rightarrow> v | _ \<Rightarrow> [])"

definition http_404 :: js_error where
  "http_404 = JsError ''Request failed with status code 404'' (Some ''{code:rest_post_invalid_id}'')"

definition new_post :: "payload \<Rightarrow> site \<Rightarrow> wp_post" where
  "new_post data w =
     \<lparr>post_id = Suc (length w), post_status = payload_text data ''status'',
      post_title = TitleObject (Some (payload_text data ''title'')) None\<rparr>"

definition demo_pathname :: "string \<Rightarrow> string option" where
  "demo_pathname u =
     (if startsWith u ''https://''
      then Some (takeWhile (\<lambda>c. c \<noteq> CHR ''?'' \<and> c \<noteq> CHR ''#'')
                  (dropWhile (\<lambda>c. c \<noteq> CHR ''/'') (drop 8 u)))
      else if startsWith u ''http://''
      then Some (takeWhile (\<lambda>c. c \<noteq> CHR ''?'' \<and> c \<noteq> CHR ''#'')
                  (dropWhile (\<lambda>c. c \<noteq> CHR ''/'') (drop 7 u)))
      else None)"

definition demo_basename :: "string \<Rightarrow> string" where
  "demo_basename p = rev (takeWhile (\<lambda>c. c \<noteq> CHR ''/'') (rev p))"

definition demo_env :: "site env" where
  "demo_env =
     \<lparr>api_get_terms = (\<lambda>taxonomy search w.
        (Inr (if search = ''News'' then [\<lparr>term_id = 4, term_name = ''news''\<rparr>] else []), w)),
      api_post_term = (\<lambda>taxonomy name w. (Inr 7, w)),
      api_get_posts_by_slug = (\<lambda>slug w. (Inr (map snd (take 1 (filter (\<lambda>e. fst e = slug) w))), w)),
      api_get_posts_page = (\<lambda>q w.
        (Inr (map snd (take (lp_per_page q) (drop ((lp_page q - 1) * lp_per_page q) w))), w)),
      api_get_post = (\<lambda>ref w.
        (case find (\<lambda>e. decimal (post_id (snd e)) = ref) w of
           Some e \<Rightarrow> (Inr (snd e), w)
         | None \<Rightarrow> (Inl http_404, w))),
      api_post_posts = (\<lambda>data w.
        (Inr (new_post data w), (payload_text data ''slug'', new_post data w) # w)),
      api_post_post = (\<lambda>i data w.
        (case find (\<lambda>e. post_id (snd e) = i) w of
           Some e \<Rightarrow> (Inr (snd e), w)
         | None \<Rightarrow> (Inl http_404, w))),
      api_post_media = (\<lambda>fileBuffer mime name w. (Inr 9, w)),
      axios_get = (\<lambda>url w.
        (Inr \<lparr>content_type = Some ''text/html; charset=utf-8'', content_disposition = None,
              body = ''<html>Sign in</html>''\<rparr>, w)),
      fs_existsSync = (\<lambda>p w. (False, w)),
      fs_readFileSync = (\<lambda>p w. (Inl (Error ''ENOENT: no such file or directory''), w)),
      path_resolve = (\<lambda>p. p),
      path_basename = demo_basename,
      path_extname = (\<lambda>p. []),
      url_pathname = demo_pathname,
      mime_extension = (\<lambda>ct. None),
      mime_lookup = (\<lambda>p. None),
      regexp_replace_ext = (\<lambda>name cur ext. Some name),
      json_parse = (\<lambda>t. Some t)\<rparr>"

definition demo_config :: config where
  "demo_config = \<lparr>default_status = ''draft'', request_delay_ms = 300\<rparr>"

definition hello_post :: wp_post where
  "hello_post =
     \<lparr>post_id = 5, post_status = ''publish'', post_title = TitleObject (Some ''Hello World'') None\<rparr>"

definition filler_post :: wp_post where
  "filler_post =
     \<lparr>post_id = 6, post_status = ''publish'', post_title = TitleObject (Some ''Filler'') None\<rparr>"

definition demo_site :: site where
  "demo_site = [(''hello-world'', hello_post)]"

text \<open>
  A site with more than a thousand posts: its ten newest pages are full of other posts,
  and \<^const>\<open>hello_post\<close> stands on page eleven.
\<close>

definition deep_env :: "site env" where
  "deep_env =
     demo_env\<lparr>api_get_posts_page := (\<lambda>q w.
        (Inr (if lp_page q \<le> 10 then replicate 100 filler_post else [hello_post]), w))\<rparr>"

text \<open>A site that refuses to create posts, and the rows of the examples.\<close>

definition failing_env :: "site env" where
  "failing_env =
     demo_env\<lparr>api_post_posts := (\<lambda>data w.
        (Inl (JsError ''Request failed with status code 403'' (Some ''{code:rest_cannot_create}'')), w))\<rparr>"

definition row_new :: row where
  "row_new = map_of [(''title'', ''Fresh Post''), (''content'', ''<p>Text</p>'')]"

definition row_id_only :: row where
  "row_id_only = map_of [(''post_id'', ''5'')]"

definition row_missing :: row where
  "row_missing = map_of [(''post_id'', ''999'')]"

definition row_slug_only :: row where
  "row_slug_only = map_of [(''slug'', '' hello-world '')]"

definition row_dup :: row where
  "row_dup = map_of [(''title'', ''  hello   WORLD ''), (''content'', ''<p>Again</p>''),
                     (''slug'', ''hello-world'')]"

definition row_news :: row where
  "row_news = map_of [(''title'', ''Fresh Post''), (''content'', ''<p>Text</p>''),
                      (''categories'', ''News'')]"

text \<open>
  A site whose newest post is another one, a site whose newest post has no title, and a
  machine on which an image file exists but cannot be read.
\<close>

definition busy_site :: site where
  "busy_site = [(''filler'', filler_post), (''hello-world'', hello_post)]"

definition untitled_post :: wp_post where
  "untitled_post = \<lparr>post_id = 8, post_status = ''draft'', post_title = TitleObject (Some []) None\<rparr>"

definition untitled_site :: site where
  "untitled_site = [(''8'', untitled_post), (''hello-world'', hello_post)]"

definition locked_env :: "site env" where
  "locked_env =
     demo_env\<lparr>fs_existsSync := (\<lambda>p w. (True, w)),
               fs_readFileSync := (\<lambda>p w. (Inl (Error ''EACCES: permission denied, open''), w))\<rparr>"

definition row_dup_no_content :: row where
  "row_dup_no_content = map_of [(''title'', ''  hello   WORLD ''), (''slug'', ''hello-world'')]"

definition row_dup_image :: row where
  "row_dup_image = map_of [(''title'', ''  hello   WORLD ''), (''content'', ''<p>Again</p>''),
                     (''slug'', ''hello-world''), (''featured_image_path'', ''cover.png'')]"

text \<open>
  Reports: a debug log on a full disk, a console that prints, a callback that writes to a
  stream that has ended, and a callback that fails on success events only. A row with a
  title and nothing else.
\<close>

definition full_disk :: "report \<Rightarrow> site \<Rightarrow> (js_error + unit) \<times> site" where
  "full_disk r w = (Inl (Error ''ENOSPC: no space left on device, write''), w)"

definition printing :: "report \<Rightarrow> site \<Rightarrow> (js_error + unit) \<times> site" where
  "printing r w = (Inr (), w)"

definition full_disk_io :: "site reporting" where
  "full_disk_io = \<lparr>console_log = full_disk, console_error = full_disk, progressCallback = None\<rparr>"

definition closed_stream_io :: "site reporting" where
  "closed_stream_io =
     \<lparr>console_log = printing, console_error = printing,
      progressCallback = Some (\<lambda>r w. (Inl (Error ''write after end''), w))\<rparr>"

definition success_throws_io :: "site reporting" where
  "success_throws_io =
     \<lparr>console_log = printing, console_error = printing,
      progressCallback = Some (\<lambda>r w.
        (case r of Success result \<Rightarrow> (Inl (Error ''Cannot read properties of undefined''), w)
                 | Failure result \<Rightarrow> (Inr (), w)))\<rparr>"

definition row_title_only :: row where
  "row_title_only = map_of [(''title'', ''Only a title'')]"

section \<open>Properties of the string primitives\<close>

lemma of_char_to_lower:
  "of_char (to_lower c) =
     (let n = of_char c :: nat
      in if (65 \<le> n \<and> n \<le> 90) \<or> (192 \<le> n \<and> n \<le> 222 \<and> n \<noteq> 215) then n + 32 else n)"
  by (auto simp: to_lower_def Let_def)

lemma char_eq_code: "(c = d) = (of_char c = (of_char d :: nat))"
  by (metis char_of_char)

lemma to_lower_idem: "to_lower (to_lower c) = to_lower c"
  by (simp add: char_eq_code [of "to_lower (to_lower c)"] of_char_to_lower Let_def)

lemma is_space_to_lower: "is_space (to_lower c) = is_space c"
  by (simp add: is_space_def of_char_to_lower Let_def)

lemma to_lower_space: "is_space c \<Longrightarrow> to_lower c = c"
  by (auto simp add: is_space_def to_lower_def Let_def)

lemma to_lower_eq_amp: "(to_lower c = CHR ''&'') = (c = CHR ''&'')"
  by (simp add: char_eq_code [of _ "CHR ''&''"] of_char_to_lower Let_def)

lemma to_lower_eq_semi: "(to_lower c = CHR '';'') = (c = CHR '';'')"
  by (simp add: char_eq_code [of _ "CHR '';''"] of_char_to_lower Let_def)

lemma to_lower_eq_lt: "(to_lower c = CHR ''<'') = (c = CHR ''<'')"
  by (simp add: char_eq_code [of _ "CHR ''<''"] of_char_to_lower Let_def)

lemma to_lower_eq_gt: "(to_lower c = CHR ''>'') = (c = CHR ''>'')"
  by (simp add: char_eq_code [of _ "CHR ''>''"] of_char_to_lower Let_def)

lemma tl_dropWhile_set: "x \<in> set (tl (dropWhile Q xs)) \<Longrightarrow> x \<in> set xs"
proof -
  assume "x \<in> set (tl (dropWhile Q xs))"
  then have "x \<in> set (dropWhile Q xs)" by (cases "dropWhile Q xs") auto
  then show ?thesis by (rule set_dropWhileD)
qed

lemma trim_decomp: "\<exists>a b. s = a @ trim s @ b"
proof -
  have "s = takeWhile is_space s @ dropWhile is_space s" by simp
  moreover have "dropWhile is_space s = trim s @ rev (takeWhile is_space (rev (dropWhile is_space s)))"
    unfolding trim_def
    by (metis rev_append rev_rev_ident takeWhile_dropWhile_id)
  ultimately show ?thesis by metis
qed

section \<open>Title normalisation is idempotent\<close>

subsection \<open>No tag is left\<close>

lemma notag_append:
  "notag (a @ b) = (notag a \<and> notag b \<and> (CHR ''<'' \<notin> set a \<or> CHR ''>'' \<notin> set b))"
  by (induction a) auto

lemma notag_no_lt: "CHR ''<'' \<notin> set a \<Longrightarrow> notag a"
  by (induction a) auto

lemma notag_tl: "notag s \<Longrightarrow> notag (tl s)"
  by (cases s) auto

lemma notag_dropWhile: "notag s \<Longrightarrow> notag (dropWhile Q s)"
  by (induction s) auto

lemma notag_drop: "notag s \<Longrightarrow> notag (drop n s)"
  by (induction s arbitrary: n) (auto simp: drop_Cons split: nat.splits)

lemma set_strip_tags: "x \<in> set (strip_tags s) \<Longrightarrow> x \<in> set s"
  by (induction s rule: strip_tags.induct) (auto split: if_splits dest: tl_dropWhile_set)

lemma notag_strip_tags: "notag (strip_tags s)"
  by (induction s rule: strip_tags.induct) (auto dest: set_strip_tags)

lemma strip_tags_id: "notag s \<Longrightarrow> strip_tags s = s"
  by (induction s) auto

lemma gt_replace_all:
  "CHR ''>'' \<notin> set rep \<Longrightarrow> CHR ''>'' \<in> set (replace_all pat rep s) \<Longrightarrow> CHR ''>'' \<in> set s"
  by (induction pat rep s rule: replace_all.induct) (auto split: if_splits dest: in_set_dropD)

lemma notag_replace_all:
  "CHR ''<'' \<notin> set rep \<Longrightarrow> CHR ''>'' \<notin> set rep \<Longrightarrow> notag s \<Longrightarrow> notag (replace_all pat rep s)"
proof (induction pat rep s rule: replace_all.induct)
  case (1 pat rep)
  then show ?case by simp
next
  case (2 pat rep c cs)
  show ?case
  proof (cases "take (length pat) (c # cs) = pat")
    case True
    have "notag (drop (length pat - 1) cs)" using "2.prems" by (simp add: notag_drop)
    with True "2.IH"(1) "2.prems" have "notag (replace_all pat rep (drop (length pat - 1) cs))"
      by simp
    with True "2.prems" show ?thesis by (simp add: notag_append notag_no_lt)
  next
    case False
    with "2.IH"(2) "2.prems" have "notag (replace_all pat rep cs)" by simp
    with False "2.prems" show ?thesis by (auto dest: gt_replace_all)
  qed
qed

lemma set_remove_entities: "x \<in> set (remove_entities s) \<Longrightarrow> x \<in> set s"
  by (induction s rule: remove_entities.induct) (auto split: if_splits dest: tl_dropWhile_set)

lemma notag_remove_entities: "notag s \<Longrightarrow> notag (remove_entities s)"
  by (induction s rule: remove_entities.induct)
     (auto dest: set_remove_entities simp: notag_tl notag_dropWhile)

lemma gt_collapse_ws: "CHR ''>'' \<in> set (collapse_ws s) \<Longrightarrow> CHR ''>'' \<in> set s"
  by (induction s rule: collapse_ws.induct) (auto split: if_splits dest: set_dropWhileD)

lemma notag_collapse_ws: "notag s \<Longrightarrow> notag (collapse_ws s)"
  by (induction s rule: collapse_ws.induct) (auto dest: gt_collapse_ws simp: notag_dropWhile)

lemma gt_toLowerCase: "(CHR ''>'' \<in> set (toLowerCase s)) = (CHR ''>'' \<in> set s)"
proof -
  have "(CHR ''>'' \<in> set (toLowerCase s)) = (\<exists>x\<in>set s. to_lower x = CHR ''>'')"
    unfolding toLowerCase_def set_map image_iff by (metis (no_types))
  then show ?thesis by (simp add: to_lower_eq_gt)
qed

lemma notag_toLowerCase: "notag s \<Longrightarrow> notag (toLowerCase s)"
proof (induction s)
  case Nil
  then show ?case by (simp add: toLowerCase_def)
next
  case (Cons c cs)
  have "toLowerCase (c # cs) = to_lower c # toLowerCase cs" by (simp add: toLowerCase_def)
  with Cons show ?case by (auto simp: gt_toLowerCase to_lower_eq_lt)
qed

lemma notag_trim: "notag s \<Longrightarrow> notag (trim s)"
  using trim_decomp [of s] by (metis notag_append)

subsection \<open>No entity is left\<close>

lemma noent_tl: "noent s \<Longrightarrow> noent (tl s)"
  by (cases s) auto

lemma noent_dropWhile: "noent s \<Longrightarrow> noent (dropWhile Q s)"
  by (induction s) auto

lemma noent_append_right: "noent (a @ b) \<Longrightarrow> noent b"
  by (induction a) auto

lemma ent_at_append: "ent_at c a \<Longrightarrow> ent_at c (a @ b)"
  by (auto simp: ent_at_def)

lemma noent_append_left: "noent (a @ b) \<Longrightarrow> noent a"
  by (induction a) (auto dest: ent_at_append)

lemma remove_entities_semi:
  "remove_entities (CHR '';'' # cs) = CHR '';'' # remove_entities cs"
  by (simp add: ent_at_def)

lemma ent_at_remove_entities:
  assumes "ent_at c (remove_entities cs)"
  shows "ent_at c cs"
proof -
  from assms have c: "c = CHR ''&''" and ne: "remove_entities cs \<noteq> []"
    and hd: "hd (remove_entities cs) \<noteq> CHR '';''" and semi: "CHR '';'' \<in> set (remove_entities cs)"
    by (auto simp: ent_at_def)
  from ne have "cs \<noteq> []" by auto
  moreover have "hd cs \<noteq> CHR '';''"
  proof
    assume "hd cs = CHR '';''"
    with \<open>cs \<noteq> []\<close> obtain ds where "cs = CHR '';'' # ds" by (cases cs) auto
    with hd show False by (simp only: remove_entities_semi list.sel) simp
  qed
  moreover from semi have "CHR '';'' \<in> set cs" by (rule set_remove_entities)
  ultimately show ?thesis using c by (simp add: ent_at_def)
qed

lemma noent_remove_entities: "noent (remove_entities s)"
proof (induction s rule: remove_entities.induct)
  case 1
  then show ?case by simp
next
  case (2 c cs)
  show ?case
  proof (cases "ent_at c cs")
    case True
    with "2.IH"(1) show ?thesis by simp
  next
    case False
    then have "\<not> ent_at c (remove_entities cs)" using ent_at_remove_entities by blast
    with False "2.IH"(2) show ?thesis by simp
  qed
qed

lemma remove_entities_id: "noent s \<Longrightarrow> remove_entities s = s"
  by (induction s) auto

lemma replace_all_id:
  assumes pat: "pat = CHR ''&'' # p # ps @ [CHR '';'']" "p \<noteq> CHR '';''"
  shows "noent s \<Longrightarrow> replace_all pat rep s = s"
proof (induction s)
  case Nil
  then show ?case by simp
next
  case (Cons c cs)
  have "take (length pat) (c # cs) \<noteq> pat"
  proof
    assume eq: "take (length pat) (c # cs) = pat"
    then obtain r where r: "c # cs = pat @ r" by (metis append_take_drop_id)
    with pat have "ent_at c cs" by (auto simp: ent_at_def)
    with Cons.prems show False by simp
  qed
  with Cons show ?case by simp
qed

lemma collapse_ws_Nil: "(collapse_ws s = []) = (s = [])"
  by (cases s) auto

lemma hd_collapse_ws_semi: "s \<noteq> [] \<Longrightarrow> (hd (collapse_ws s) = CHR '';'') = (hd s = CHR '';'')"
  by (cases s) (auto simp: is_space_def)

lemma semi_collapse_ws: "(CHR '';'' \<in> set (collapse_ws s)) = (CHR '';'' \<in> set s)"
proof (induction s rule: collapse_ws.induct)
  case 1
  then show ?case by simp
next
  case (2 c cs)
  have sp: "\<And>x. is_space x \<Longrightarrow> x \<noteq> CHR '';''" by (auto simp: is_space_def)
  have "(CHR '';'' \<in> set (dropWhile is_space cs)) = (CHR '';'' \<in> set cs)"
    using sp by (induction cs) auto
  with 2 sp show ?case by auto
qed

lemma ent_at_collapse_ws: "ent_at c (collapse_ws cs) = ent_at c cs"
  by (cases "cs = []") (simp_all add: ent_at_def collapse_ws_Nil hd_collapse_ws_semi semi_collapse_ws)

lemma noent_collapse_ws: "noent s \<Longrightarrow> noent (collapse_ws s)"
proof (induction s rule: collapse_ws.induct)
  case 1
  then show ?case by simp
next
  case (2 c cs)
  show ?case
  proof (cases "is_space c")
    case True
    then have "\<not> ent_at (CHR '' '') (collapse_ws (dropWhile is_space cs))"
      by (simp add: ent_at_def)
    moreover have "noent (collapse_ws (dropWhile is_space cs))"
      using True "2.IH"(1) "2.prems" by (simp add: noent_dropWhile)
    ultimately show ?thesis using True by simp
  next
    case False
    with "2.IH"(2) "2.prems" show ?thesis by (simp add: ent_at_collapse_ws)
  qed
qed

lemma semi_toLowerCase: "(CHR '';'' \<in> set (toLowerCase s)) = (CHR '';'' \<in> set s)"
proof -
  have "(CHR '';'' \<in> set (toLowerCase s)) = (\<exists>x\<in>set s. to_lower x = CHR '';'')"
    unfolding toLowerCase_def set_map image_iff by (metis (no_types))
  then show ?thesis by (simp add: to_lower_eq_semi)
qed

lemma ent_at_toLowerCase: "ent_at (to_lower c) (toLowerCase cs) = ent_at c cs"
proof (cases cs)
  case Nil
  then show ?thesis by (simp add: ent_at_def toLowerCase_def)
next
  case (Cons d ds)
  have "CHR '';'' \<in> set (toLowerCase (d # ds)) = (CHR '';'' \<in> set (d # ds))"
    by (rule semi_toLowerCase)
  moreover have "toLowerCase (d # ds) = to_lower d # toLowerCase ds"
    by (simp add: toLowerCase_def)
  ultimately show ?thesis using Cons
    by (simp add: ent_at_def to_lower_eq_amp to_lower_eq_semi)
qed

lemma noent_toLowerCase: "noent s \<Longrightarrow> noent (toLowerCase s)"
proof (induction s)
  case Nil
  then show ?case by (simp add: toLowerCase_def)
next
  case (Cons c cs)
  have "toLowerCase (c # cs) = to_lower c # toLowerCase cs" by (simp add: toLowerCase_def)
  with Cons show ?case by (simp add: ent_at_toLowerCase)
qed

lemma noent_trim: "noent s \<Longrightarrow> noent (trim s)"
  using trim_decomp [of s] by (metis noent_append_left noent_append_right)

subsection \<open>White space is single spaces\<close>

lemma collapse_ws_id: "wsnorm s \<Longrightarrow> collapse_ws s = s"
proof (induction s)
  case Nil
  then show ?case by simp
next
  case (Cons c cs)
  show ?case
  proof (cases "is_space c")
    case True
    with Cons.prems have c: "c = CHR '' ''" and "cs = [] \<or> \<not> is_space (hd cs)" by auto
    then have "dropWhile is_space cs = cs" by (cases cs) auto
    with True c Cons show ?thesis by simp
  next
    case False
    with Cons show ?thesis by simp
  qed
qed

lemma hd_collapse_ws:
  "s = [] \<or> \<not> is_space (hd s) \<Longrightarrow> collapse_ws s = [] \<or> \<not> is_space (hd (collapse_ws s))"
  by (cases s) auto

lemma hd_dropWhile_space: "dropWhile is_space s = [] \<or> \<not> is_space (hd (dropWhile is_space s))"
  by (metis hd_dropWhile)

lemma wsnorm_collapse_ws: "wsnorm (collapse_ws s)"
proof (induction s rule: collapse_ws.induct)
  case 1
  then show ?case by simp
next
  case (2 c cs)
  show ?case
  proof (cases "is_space c")
    case True
    with "2.IH"(1) hd_collapse_ws [OF hd_dropWhile_space, of cs] show ?thesis by simp
  next
    case False
    with "2.IH"(2) show ?thesis by simp
  qed
qed

lemma wsnorm_toLowerCase: "wsnorm s \<Longrightarrow> wsnorm (toLowerCase s)"
proof (induction s)
  case Nil
  then show ?case by (simp add: toLowerCase_def)
next
  case (Cons c cs)
  have eq: "toLowerCase (c # cs) = to_lower c # toLowerCase cs" by (simp add: toLowerCase_def)
  have hd: "cs \<noteq> [] \<Longrightarrow> is_space (hd (toLowerCase cs)) = is_space (hd cs)"
    by (cases cs) (simp_all add: toLowerCase_def is_space_to_lower)
  have nil: "(toLowerCase cs = []) = (cs = [])" by (simp add: toLowerCase_def)
  have sp: "c = CHR '' '' \<Longrightarrow> to_lower c = CHR '' ''"
    by (simp add: to_lower_space is_space_def)
  from Cons hd nil sp show ?case unfolding eq by (auto simp: is_space_to_lower)
qed

lemma wsnorm_append_right: "wsnorm (a @ b) \<Longrightarrow> wsnorm b"
  by (induction a) auto

lemma wsnorm_append_left: "wsnorm (a @ b) \<Longrightarrow> wsnorm a"
proof (induction a)
  case Nil
  then show ?case by simp
next
  case (Cons c cs)
  then show ?case by (cases cs) auto
qed

lemma wsnorm_trim: "wsnorm s \<Longrightarrow> wsnorm (trim s)"
  using trim_decomp [of s] by (metis wsnorm_append_left wsnorm_append_right)

subsection \<open>Lower case and trimmed\<close>

lemma toLowerCase_idem: "toLowerCase (toLowerCase s) = toLowerCase s"
  by (simp add: toLowerCase_def to_lower_idem)

lemma set_trim: "x \<in> set (trim s) \<Longrightarrow> x \<in> set s"
  using trim_decomp [of s] by (metis Un_iff set_append)

lemma toLowerCase_trim: "toLowerCase (trim (toLowerCase s)) = trim (toLowerCase s)"
proof -
  have "\<forall>x\<in>set (trim (toLowerCase s)). to_lower x = x"
  proof
    fix x assume "x \<in> set (trim (toLowerCase s))"
    then have "x \<in> set (toLowerCase s)" by (rule set_trim)
    then show "to_lower x = x" by (auto simp: toLowerCase_def to_lower_idem)
  qed
  then show ?thesis unfolding toLowerCase_def [of "trim _"] by (simp add: map_idI)
qed

lemma trim_idem: "trim (trim s) = trim s"
proof -
  define t where "t = dropWhile is_space s"
  define u where "u = rev (dropWhile is_space (rev t))"
  have tu: "trim s = u" by (simp add: trim_def t_def u_def)
  have "\<exists>b. t = u @ b"
    unfolding u_def by (metis rev_append rev_rev_ident takeWhile_dropWhile_id)
  then obtain b where b: "t = u @ b" ..
  have "t = [] \<or> \<not> is_space (hd t)" unfolding t_def by (rule hd_dropWhile_space)
  with b have "u = [] \<or> \<not> is_space (hd u)" by (cases u) auto
  then have du: "dropWhile is_space u = u" by (cases u) auto
  have "rev u = dropWhile is_space (rev t)" by (simp add: u_def)
  then have "dropWhile is_space (rev u) = rev u" by simp
  with du have "trim u = u" by (simp add: trim_def)
  with tu show ?thesis by simp
qed

text \<open>
  Claim C5: normalising a title twice gives what normalising it once gives, for every
  string.
\<close>

theorem normalizeTitle_idempotent:
  "normalizeTitle (normalizeTitle s) = normalizeTitle s"
proof (cases "s = [] \<or> normalizeTitle s = []")
  case True
  then show ?thesis by (auto simp: normalizeTitle_def)
next
  case False
  define d where "d = replace_all ''&#038;'' ''&''
        (replace_all ''&#39;'' [CHR 0x27]
        (replace_all ''&#8216;'' [CHR 0x27]
        (replace_all ''&#8217;'' [CHR 0x27]
        (replace_all ''&quot;'' [CHR 0x22]
        (replace_all ''&amp;'' ''&''
        (replace_all ''&nbsp;'' '' ''
        (strip_tags s)))))))"
  define l where "l = toLowerCase (collapse_ws (remove_entities d))"
  define r where "r = trim l"
  have r: "normalizeTitle s = r" using False by (simp add: normalizeTitle_def d_def l_def r_def)
  have "notag d" unfolding d_def by (intro notag_replace_all notag_strip_tags) simp_all
  then have tag: "notag r" unfolding r_def l_def
    by (intro notag_trim notag_toLowerCase notag_collapse_ws notag_remove_entities)
  have ent: "noent r" unfolding r_def l_def
    by (intro noent_trim noent_toLowerCase noent_collapse_ws noent_remove_entities)
  have ws: "wsnorm r" unfolding r_def l_def
    by (intro wsnorm_trim wsnorm_toLowerCase wsnorm_collapse_ws)
  have low: "toLowerCase r = r" unfolding r_def l_def by (rule toLowerCase_trim)
  have tr: "trim r = r" unfolding r_def by (rule trim_idem)
  have rep: "\<And>p ps rep. p \<noteq> CHR '';'' \<Longrightarrow> replace_all (CHR ''&'' # p # ps @ [CHR '';'']) rep r = r"
    by (rule replace_all_id [OF refl _ ent])
  have d': "replace_all ''&#038;'' ''&''
        (replace_all ''&#39;'' [CHR 0x27]
        (replace_all ''&#8216;'' [CHR 0x27]
        (replace_all ''&#8217;'' [CHR 0x27]
        (replace_all ''&quot;'' [CHR 0x22]
        (replace_all ''&amp;'' ''&''
        (replace_all ''&nbsp;'' '' ''
        (strip_tags r))))))) = r"
    using rep [of "CHR ''n''" "''bsp''"] rep [of "CHR ''a''" "''mp''"] rep [of "CHR ''q''" "''uot''"]
      rep [of "CHR ''#''" "''8217''"] rep [of "CHR ''#''" "''8216''"] rep [of "CHR ''#''" "''39''"]
      rep [of "CHR ''#''" "''038''"]
    by (simp add: strip_tags_id [OF tag])
  have "normalizeTitle r = trim (toLowerCase (collapse_ws (remove_entities r)))"
    using False r unfolding normalizeTitle_def [of r] d' by simp
  also have "\<dots> = r"
    by (simp add: remove_entities_id [OF ent] collapse_ws_id [OF ws] low tr)
  finally show ?thesis using r by simp
qed


section \<open>The rewrite of Drive share links\<close>

lemma takeWhile_id_run:
  "list_all is_id_char fid \<Longrightarrow> rest = [] \<or> \<not> is_id_char (hd rest) \<Longrightarrow>
   takeWhile is_id_char (fid @ rest) = fid"
proof (induction fid)
  case Nil
  then show ?case by (cases rest) auto
next
  case (Cons a fid)
  then show ?case by simp
qed

lemma match_id_after_first:
  assumes "pat \<noteq> []" "fid \<noteq> []" "list_all is_id_char fid" "rest = [] \<or> \<not> is_id_char (hd rest)"
  shows "\<not> js_includes (pre @ butlast pat) pat \<Longrightarrow>
         match_id_after pat (pre @ pat @ fid @ rest) = Some fid"
proof (induction pre)
  case Nil
  from assms(1) obtain c cs where pat: "pat = c # cs" by (cases pat) auto
  have "takeWhile is_id_char (fid @ rest) = fid" using assms(3,4) by (rule takeWhile_id_run)
  with assms(2) show ?case by (simp add: pat)
next
  case (Cons p pre)
  have split: "(p # pre) @ pat @ fid @ rest = ((p # pre) @ butlast pat) @ (last pat # fid @ rest)"
    using assms(1) by simp
  have len: "length pat \<le> length ((p # pre) @ butlast pat)" by simp
  have "take (length pat) ((p # pre) @ pat @ fid @ rest) = take (length pat) ((p # pre) @ butlast pat)"
    unfolding split using len by (simp only: take_append) simp
  moreover from Cons.prems have "take (length pat) ((p # pre) @ butlast pat) \<noteq> pat"
    and "\<not> js_includes (pre @ butlast pat) pat" by auto
  ultimately show ?case using Cons.IH by simp
qed

lemma match_id_after_none:
  "(\<And>p c r. url = p @ pat @ c # r \<Longrightarrow> \<not> is_id_char c) \<Longrightarrow> match_id_after pat url = None"
proof (induction url)
  case Nil
  then show ?case by simp
next
  case (Cons a url)
  have "match_id_after pat url = None"
  proof (rule Cons.IH)
    fix p c r assume "url = p @ pat @ c # r"
    then have "a # url = (a # p) @ pat @ c # r" by simp
    then show "\<not> is_id_char c" by (rule Cons.prems)
  qed
  moreover have "\<not> (take (length pat) (a # url) = pat
      \<and> takeWhile is_id_char (drop (length pat) (a # url)) \<noteq> [])"
  proof
    assume h: "take (length pat) (a # url) = pat
      \<and> takeWhile is_id_char (drop (length pat) (a # url)) \<noteq> []"
    then obtain c r where cr: "drop (length pat) (a # url) = c # r" and c: "is_id_char c"
      by (cases "drop (length pat) (a # url)") (auto split: if_splits)
    have "a # url = take (length pat) (a # url) @ drop (length pat) (a # url)" by simp
    with h cr have "a # url = [] @ pat @ c # r" by simp
    then have "\<not> is_id_char c" by (rule Cons.prems)
    with c show False by simp
  qed
  ultimately show ?case by simp
qed

lemma uploadMedia_url_events:
  assumes "startsWith (trim src) ''http://'' \<or> startsWith (trim src) ''https://''"
  shows "\<exists>m n. snd (snd (uploadMedia env dc src (w, tr))) = tr @ [AxiosGet (convertGoogleDriveUrl (trim src))]
     \<or> snd (snd (uploadMedia env dc src (w, tr))) = tr @ [AxiosGet (convertGoogleDriveUrl (trim src)), Sleep (request_delay_ms dc), PostMedia m n]"
proof -
  from assms have ne: "trim src \<noteq> []" by (auto simp: startsWith_def)
  show ?thesis using assms ne
    by (auto simp: uploadMedia_def downloadImageFromUrl_def send_media_def call_def sleep_def
        split: prod.splits sum.splits option.splits)
qed


lemma js_includes_decomp: "url = p @ pat @ r \<Longrightarrow> js_includes url pat"
proof (induction p arbitrary: url)
  case Nil
  then have "take (length pat) url = pat" by simp
  then show ?case by (cases url) auto
next
  case (Cons a p)
  then show ?case by auto
qed

text \<open>
  Claim C9: a Drive share link with a file identifier after \<^verbatim>\<open>/d/\<close>, or else after
  \<^verbatim>\<open>id=\<close>, is rewritten to the direct download link of that identifier; a text without
  such an identifier is returned as it is; and the upload script fetches the rewritten
  link, and nothing else.
\<close>

theorem convertGoogleDriveUrl_rewrites:
  "(js_includes url ''drive.google.com'' \<and> url = pre @ ''/d/'' @ fid @ rest
      \<and> \<not> js_includes (pre @ ''/d'') ''/d/''
      \<and> fid \<noteq> [] \<and> list_all is_id_char fid \<and> (rest = [] \<or> \<not> is_id_char (hd rest))
    \<longrightarrow> convertGoogleDriveUrl url = ''https://drive.google.com/uc?export=download&id='' @ fid)
 \<and> (js_includes url ''drive.google.com'' \<and> url = pre @ ''id='' @ fid @ rest
      \<and> \<not> js_includes (pre @ ''id'') ''id='' \<and> \<not> js_includes url ''/d/''
      \<and> fid \<noteq> [] \<and> list_all is_id_char fid \<and> (rest = [] \<or> \<not> is_id_char (hd rest))
    \<longrightarrow> convertGoogleDriveUrl url = ''https://drive.google.com/uc?export=download&id='' @ fid)
 \<and> (\<not> js_includes url ''drive.google.com''
      \<or> (\<forall>p c r. is_id_char c \<longrightarrow> url \<noteq> p @ ''/d/'' @ c # r \<and> url \<noteq> p @ ''id='' @ c # r)
    \<longrightarrow> convertGoogleDriveUrl url = url)
 \<and> (startsWith (trim src) ''http://'' \<or> startsWith (trim src) ''https://''
    \<longrightarrow> (\<exists>m n. snd (snd (uploadMedia env defaultConfig src (w, tr)))
                 = tr @ [AxiosGet (convertGoogleDriveUrl (trim src))]
             \<or> snd (snd (uploadMedia env defaultConfig src (w, tr)))
                 = tr @ [AxiosGet (convertGoogleDriveUrl (trim src)),
                         Sleep (request_delay_ms defaultConfig), PostMedia m n]))"
proof (intro conjI impI)
  assume h: "js_includes url ''drive.google.com'' \<and> url = pre @ ''/d/'' @ fid @ rest
      \<and> \<not> js_includes (pre @ ''/d'') ''/d/''
      \<and> fid \<noteq> [] \<and> list_all is_id_char fid \<and> (rest = [] \<or> \<not> is_id_char (hd rest))"
  then have "match_id_after ''/d/'' url = Some fid"
    using match_id_after_first [of "''/d/''" fid rest pre] by simp
  with h show "convertGoogleDriveUrl url = ''https://drive.google.com/uc?export=download&id='' @ fid"
    by (auto simp: convertGoogleDriveUrl_def direct_download_def)
next
  assume h: "js_includes url ''drive.google.com'' \<and> url = pre @ ''id='' @ fid @ rest
      \<and> \<not> js_includes (pre @ ''id'') ''id='' \<and> \<not> js_includes url ''/d/''
      \<and> fid \<noteq> [] \<and> list_all is_id_char fid \<and> (rest = [] \<or> \<not> is_id_char (hd rest))"
  then have "match_id_after ''id='' url = Some fid"
    using match_id_after_first [of "''id=''" fid rest pre] by simp
  moreover have "match_id_after ''/d/'' url = None"
  proof (rule match_id_after_none)
    fix p c r assume "url = p @ ''/d/'' @ c # r"
    then have "js_includes url ''/d/''" by (rule js_includes_decomp)
    with h show "\<not> is_id_char c" by simp
  qed
  ultimately show "convertGoogleDriveUrl url = ''https://drive.google.com/uc?export=download&id='' @ fid"
    using h by (auto simp: convertGoogleDriveUrl_def direct_download_def)
next
  assume h: "\<not> js_includes url ''drive.google.com''
      \<or> (\<forall>p c r. is_id_char c \<longrightarrow> url \<noteq> p @ ''/d/'' @ c # r \<and> url \<noteq> p @ ''id='' @ c # r)"
  show "convertGoogleDriveUrl url = url"
  proof (cases "js_includes url ''drive.google.com''")
    case False
    then show ?thesis by (simp add: convertGoogleDriveUrl_def)
  next
    case True
    with h have no: "\<forall>p c r. is_id_char c \<longrightarrow> url \<noteq> p @ ''/d/'' @ c # r \<and> url \<noteq> p @ ''id='' @ c # r"
      by simp
    have "match_id_after ''/d/'' url = None" by (rule match_id_after_none) (use no in blast)
    moreover have "match_id_after ''id='' url = None" by (rule match_id_after_none) (use no in blast)
    ultimately show ?thesis by (simp add: convertGoogleDriveUrl_def)
  qed
next
  assume "startsWith (trim src) ''http://'' \<or> startsWith (trim src) ''https://''"
  then show "\<exists>m n. snd (snd (uploadMedia env defaultConfig src (w, tr)))
                 = tr @ [AxiosGet (convertGoogleDriveUrl (trim src))]
             \<or> snd (snd (uploadMedia env defaultConfig src (w, tr)))
                 = tr @ [AxiosGet (convertGoogleDriveUrl (trim src)),
                         Sleep (request_delay_ms defaultConfig), PostMedia m n]"
    by (rule uploadMedia_url_events)
qed


theorem convertGoogleDriveUrl_rewrites_witness:
  "convertGoogleDriveUrl ''https://drive.google.com/file/d/ABC123/view''
     = ''https://drive.google.com/uc?export=download&id=ABC123''
 \<and> convertGoogleDriveUrl ''https://drive.google.com/open?id=XYZ_9&usp=sharing''
     = ''https://drive.google.com/uc?export=download&id=XYZ_9''
 \<and> convertGoogleDriveUrl ''https://example.com/img/cat.png'' = ''https://example.com/img/cat.png''
 \<and> snd (snd (uploadMedia demo_env demo_config '' https://drive.google.com/file/d/ABC123/view ''
       (demo_site, [])))
     = [AxiosGet ''https://drive.google.com/uc?export=download&id=ABC123'']"
proof -
  have a: "convertGoogleDriveUrl ''https://drive.google.com/file/d/ABC123/view''
     = ''https://drive.google.com/uc?export=download&id=ABC123''"
    using convertGoogleDriveUrl_rewrites
      [of "''https://drive.google.com/file/d/ABC123/view''" "''https://drive.google.com/file''"
          "''ABC123''" "''/view''", THEN conjunct1]
    by (simp add: is_id_char_def)
  have b: "convertGoogleDriveUrl ''https://drive.google.com/open?id=XYZ_9&usp=sharing''
     = ''https://drive.google.com/uc?export=download&id=XYZ_9''"
    using convertGoogleDriveUrl_rewrites
      [of "''https://drive.google.com/open?id=XYZ_9&usp=sharing''" "''https://drive.google.com/open?''"
          "''XYZ_9''" "''&usp=sharing''", THEN conjunct2, THEN conjunct1]
    by (simp add: is_id_char_def)
  have c: "convertGoogleDriveUrl ''https://example.com/img/cat.png'' = ''https://example.com/img/cat.png''"
    using convertGoogleDriveUrl_rewrites [of "''https://example.com/img/cat.png''",
        THEN conjunct2, THEN conjunct2, THEN conjunct1]
    by simp
  have t: "trim '' https://drive.google.com/file/d/ABC123/view ''
      = ''https://drive.google.com/file/d/ABC123/view''"
    by (simp add: trim_def is_space_def)
  have d: "snd (snd (uploadMedia demo_env demo_config '' https://drive.google.com/file/d/ABC123/view ''
       (demo_site, [])))
     = [AxiosGet ''https://drive.google.com/uc?export=download&id=ABC123'']"
    using convertGoogleDriveUrl_rewrites
      [of _ _ _ _ "'' https://drive.google.com/file/d/ABC123/view ''" demo_env demo_config demo_site "[]",
        THEN conjunct2, THEN conjunct2, THEN conjunct2]
    unfolding t a
    by (simp add: startsWith_def uploadMedia_def t a downloadImageFromUrl_def call_def demo_env_def
        download_result_def truthy_str_def)
  from a b c d show ?thesis by simp
qed


section \<open>The duplicate search is bounded\<close>

lemma call_trace: "call f ev s = (r, s') \<Longrightarrow> snd s' = snd s @ [ev]"
  by (auto simp: call_def split: prod.splits)

lemma call_world: "call f ev s = (r, s') \<Longrightarrow> f (fst s) = (r, fst s')"
  by (auto simp: call_def split: prod.splits)

lemma call_eq: "f (fst s) = (r, w) \<Longrightarrow> call f ev s = (r, (w, snd s @ [ev]))"
  by (simp add: call_def)

lemma find_pages_trace:
  "\<exists>k\<ge>1. (page + k \<le> 11 \<or> k = 1)
     \<and> snd (snd (find_pages env t page s)) = snd s @ map (\<lambda>p. GetPostsPage (listing p)) [page..<page + k]"
proof (induction env t page s rule: find_pages.induct)
  case (1 env t page s)
  obtain r s1 where c: "call (api_get_posts_page env (listing page)) (GetPostsPage (listing page)) s = (r, s1)"
    by (cases "call (api_get_posts_page env (listing page)) (GetPostsPage (listing page)) s") auto
  then have tr1: "snd s1 = snd s @ [GetPostsPage (listing page)]" by (rule call_trace)
  have one: "snd s1 = snd s @ map (\<lambda>p. GetPostsPage (listing p)) [page..<page + 1]"
    using tr1 by simp
  show ?case
  proof (cases "\<exists>posts. r = Inr posts \<and> posts \<noteq> [] \<and> scan_page t posts = NoMatch
                  \<and> \<not> length posts < 100 \<and> \<not> page + 1 > 10")
    case True
    then obtain posts where p: "r = Inr posts" "posts \<noteq> []" "scan_page t posts = NoMatch"
      "\<not> length posts < 100" "\<not> page + 1 > 10" by blast
    from "1.IH" [OF c [symmetric, unfolded p(1)] refl p(2) p(3) p(4) p(5)]
    obtain k where k: "k \<ge> 1" "page + 1 + k \<le> 11 \<or> k = 1"
      "snd (snd (find_pages env t (page + 1) s1)) = snd s1 @ map (\<lambda>p. GetPostsPage (listing p)) [page + 1..<page + 1 + k]"
      by blast
    have eq: "find_pages env t page s = find_pages env t (page + 1) s1"
      using c p by (subst find_pages.simps) simp
    have "[page..<page + (k + 1)] = page # [page + 1..<page + 1 + k]"
      by (simp add: upt_rec)
    with k tr1 eq p(5) have "snd (snd (find_pages env t page s))
        = snd s @ map (\<lambda>p. GetPostsPage (listing p)) [page..<page + (k + 1)]"
      by simp
    moreover have "page + (k + 1) \<le> 11 \<or> k + 1 = 1" using k p(5) by auto
    ultimately show ?thesis by (intro exI [of _ "k + 1"]) simp
  next
    case False
    have "snd (find_pages env t page s) = s1"
      using c False by (subst find_pages.simps) (auto split: sum.splits scan_result.splits)
    with one show ?thesis by (intro exI [of _ 1]) simp
  qed
qed

lemma find_pages_short:
  assumes "api_get_posts_page env (listing p) w = (Inr posts, w')" "length posts < 100"
  shows "find_pages env t p (w, tr)
     = ((case scan_page t posts of Match i \<Rightarrow> Some i | NoMatch \<Rightarrow> None | TypeError \<Rightarrow> None),
        (w', tr @ [GetPostsPage (listing p)]))"
  using assms by (subst find_pages.simps) (auto simp: call_def split: scan_result.splits)

lemma find_pages_cap:
  assumes full: "\<And>p w. 1 \<le> p \<Longrightarrow> p \<le> 10 \<Longrightarrow>
     \<exists>posts w'. api_get_posts_page env (listing p) w = (Inr posts, w') \<and> length posts = 100
        \<and> scan_page t posts = NoMatch"
  shows "1 \<le> page \<Longrightarrow> page \<le> 10 \<Longrightarrow>
     fst (find_pages env t page s) = None
     \<and> snd (snd (find_pages env t page s)) = snd s @ map (\<lambda>p. GetPostsPage (listing p)) [page..<11]"
proof (induction "10 - page" arbitrary: page s)
  case 0
  then have page: "page = 10" by simp
  from full [of page "fst s"] page obtain posts w' where
    p: "api_get_posts_page env (listing page) (fst s) = (Inr posts, w')" "length posts = 100"
       "scan_page t posts = NoMatch" by auto
  have ne: "posts \<noteq> []" using p(2) by auto
  have "find_pages env t page s = (None, (w', snd s @ [GetPostsPage (listing page)]))"
    using p ne page by (subst find_pages.simps) (simp add: call_def)
  with page show ?case by simp
next
  case (Suc n)
  then have page: "page < 10" "1 \<le> page" by simp_all
  from full [of page "fst s"] page obtain posts w' where
    p: "api_get_posts_page env (listing page) (fst s) = (Inr posts, w')" "length posts = 100"
       "scan_page t posts = NoMatch" by auto
  have ne: "posts \<noteq> []" using p(2) by auto
  define s1 where "s1 = (w', snd s @ [GetPostsPage (listing page)])"
  have eq: "find_pages env t page s = find_pages env t (page + 1) s1"
    using p ne page by (subst find_pages.simps) (simp add: call_def s1_def)
  have "n = 10 - (page + 1)" using Suc.hyps(2) by simp
  from Suc.hyps(1) [OF this] page
  have ih: "fst (find_pages env t (page + 1) s1) = None
       \<and> snd (snd (find_pages env t (page + 1) s1)) = snd s1 @ map (\<lambda>p. GetPostsPage (listing p)) [page + 1..<11]"
    by simp
  have "[page..<11] = page # [page + 1..<11]" using page by (simp add: upt_rec)
  with ih eq show ?case by (simp add: s1_def)
qed

lemma scan_page_replicate:
  "postTitleRaw (post_title p) = Some x \<Longrightarrow> normalizeTitle x \<noteq> t \<Longrightarrow>
   scan_page t (replicate n p) = NoMatch"
  by (induction n) simp_all

lemma findPostByTitle_trace:
  "\<exists>k\<le>10. snd (snd (findPostByTitle env ttl (w, tr)))
       = tr @ map (\<lambda>p. GetPostsPage (listing p)) [1..<Suc k]"
proof (cases "trim ttl = []")
  case True
  then show ?thesis by (intro exI [of _ 0]) (simp add: findPostByTitle_def)
next
  case False
  from find_pages_trace [of 1 env "normalizeTitle ttl" "(w, tr)"]
  obtain k where k: "k \<ge> 1" "1 + k \<le> 11 \<or> k = 1"
    "snd (snd (find_pages env (normalizeTitle ttl) 1 (w, tr)))
       = tr @ map (\<lambda>p. GetPostsPage (listing p)) [1..<1 + k]" by auto
  from k(1,2) have "k \<le> 10" by auto
  with k(3) False show ?thesis
    by (intro exI [of _ k]) (simp add: findPostByTitle_def)
qed

text \<open>
  Claim C4: the duplicate search by title ends after at most ten requests, for the pages
  1, 2, ... in this order, each for 100 posts of any status, newest first; a page of
  fewer than 100 posts is the last one requested; and when all ten pages are full and
  hold no match, the search answers \<^verbatim>\<open>null\<close>.
\<close>

theorem findPostByTitle_bounded:
  "(\<exists>k\<le>10. snd (snd (findPostByTitle env ttl (w, tr)))
       = tr @ map (\<lambda>p. GetPostsPage \<lparr>lp_per_page = 100, lp_page = p, lp_status = ''any'',
                                      lp_orderby = ''date'', lp_order = ''desc''\<rparr>) [1..<Suc k])
 \<and> (api_get_posts_page env (listing p) w = (Inr posts, w') \<and> length posts < 100
    \<longrightarrow> snd (find_pages env (normalizeTitle ttl) p (w, tr)) = (w', tr @ [GetPostsPage (listing p)]))
 \<and> (trim ttl \<noteq> []
     \<and> (\<forall>p w. 1 \<le> p \<and> p \<le> 10 \<longrightarrow>
           (\<exists>posts w'. api_get_posts_page env (listing p) w = (Inr posts, w') \<and> length posts = 100
              \<and> scan_page (normalizeTitle ttl) posts = NoMatch))
    \<longrightarrow> fst (findPostByTitle env ttl (w, tr)) = None
        \<and> snd (snd (findPostByTitle env ttl (w, tr)))
            = tr @ map (\<lambda>p. GetPostsPage (listing p)) [1..<11])"
proof (intro conjI impI)
  show "\<exists>k\<le>10. snd (snd (findPostByTitle env ttl (w, tr)))
       = tr @ map (\<lambda>p. GetPostsPage \<lparr>lp_per_page = 100, lp_page = p, lp_status = ''any'',
                                      lp_orderby = ''date'', lp_order = ''desc''\<rparr>) [1..<Suc k]"
    using findPostByTitle_trace [of env ttl w tr] by (simp add: listing_def)
next
  assume "api_get_posts_page env (listing p) w = (Inr posts, w') \<and> length posts < 100"
  then show "snd (find_pages env (normalizeTitle ttl) p (w, tr)) = (w', tr @ [GetPostsPage (listing p)])"
    by (simp add: find_pages_short)
next
  assume h: "trim ttl \<noteq> []
     \<and> (\<forall>p w. 1 \<le> p \<and> p \<le> 10 \<longrightarrow>
           (\<exists>posts w'. api_get_posts_page env (listing p) w = (Inr posts, w') \<and> length posts = 100
              \<and> scan_page (normalizeTitle ttl) posts = NoMatch))"
  then have "fst (find_pages env (normalizeTitle ttl) 1 (w, tr)) = None
     \<and> snd (snd (find_pages env (normalizeTitle ttl) 1 (w, tr)))
          = snd (w, tr) @ map (\<lambda>p. GetPostsPage (listing p)) [1..<11]"
    by (intro find_pages_cap) auto
  with h show "fst (findPostByTitle env ttl (w, tr)) = None"
    and "snd (snd (findPostByTitle env ttl (w, tr))) = tr @ map (\<lambda>p. GetPostsPage (listing p)) [1..<11]"
    by (simp_all add: findPostByTitle_def)
qed

lemma normalize_examples:
  "normalizeTitle ''Hello World'' = ''hello world''"
  "normalizeTitle ''Filler'' = ''filler''"
  "trim ''Hello World'' = ''Hello World''"
  by code_simp+

theorem findPostByTitle_bounded_witness:
  "snd (snd (findPostByTitle demo_env ''Hello World'' (demo_site, []))) = [GetPostsPage (listing 1)]
 \<and> snd (find_pages demo_env (normalizeTitle ''Hello World'') 1 (demo_site, []))
     = (demo_site, [GetPostsPage (listing 1)])
 \<and> fst (findPostByTitle deep_env ''Hello World'' (demo_site, [])) = None
 \<and> snd (snd (findPostByTitle deep_env ''Hello World'' (demo_site, [])))
     = map (\<lambda>p. GetPostsPage (listing p)) [1..<11]"
proof -
  have page1: "api_get_posts_page demo_env (listing 1) demo_site = (Inr [hello_post], demo_site)"
    by (simp add: demo_env_def listing_def demo_site_def)
  have b: "snd (find_pages demo_env (normalizeTitle ''Hello World'') 1 (demo_site, []))
     = (demo_site, [GetPostsPage (listing 1)])"
    using findPostByTitle_bounded [of demo_env "''Hello World''" demo_site "[]" 1 "[hello_post]" demo_site,
        THEN conjunct2, THEN conjunct1] page1
    by simp
  from findPostByTitle_bounded [of demo_env "''Hello World''" demo_site "[]", THEN conjunct1]
  have a: "snd (snd (findPostByTitle demo_env ''Hello World'' (demo_site, []))) = [GetPostsPage (listing 1)]"
    using b by (simp add: findPostByTitle_def normalize_examples)
  have full: "\<forall>p w. 1 \<le> p \<and> p \<le> 10 \<longrightarrow>
           (\<exists>posts w'. api_get_posts_page deep_env (listing p) w = (Inr posts, w') \<and> length posts = 100
              \<and> scan_page (normalizeTitle ''Hello World'') posts = NoMatch)"
    by (auto simp: deep_env_def listing_def normalize_examples filler_post_def
        intro!: scan_page_replicate [where x = "''Filler''"])
  have c: "fst (findPostByTitle deep_env ''Hello World'' (demo_site, [])) = None
        \<and> snd (snd (findPostByTitle deep_env ''Hello World'' (demo_site, [])))
            = [] @ map (\<lambda>p. GetPostsPage (listing p)) [1..<11]"
    using findPostByTitle_bounded [of deep_env "''Hello World''" demo_site "[]", THEN conjunct2, THEN conjunct2]
      full by (simp add: normalize_examples)
  from a b c show ?thesis by simp
qed


section \<open>The outcome of a row\<close>

lemma submit_post_result:
  assumes "submit_post env config pd ex result s = ((x, r), s')"
  shows "(\<exists>e. x = Some e \<and> r = result)
       \<or> (x = None \<and> (\<exists>a i st. r = result\<lparr>action := Some a, postId := Some i, status := Some st\<rparr>))"
  using assms
  by (auto simp: submit_post_def split: option.splits sum.splits prod.splits)

lemma create_body_result:
  assumes "create_body env config dc row result s = ((x, r), s')"
  shows "(\<exists>e. x = Some e \<and> r = result)
       \<or> (x = None \<and> (\<exists>a i st. r = result\<lparr>action := Some a, postId := Some i, status := Some st\<rparr>))"
  using assms unfolding create_body_def
  by (auto split: option.splits sum.splits prod.splits dest: submit_post_result)

lemma update_body_result:
  assumes "update_body env config row result s = ((x, r), s')"
  shows "(\<exists>e. x = Some e \<and> r = result \<and> (\<exists>e1 s1. resolve_target env row s = (Inl e1, s1)))
       \<or> (\<exists>e i s1. x = Some e \<and> r = result\<lparr>postId := Some i\<rparr> \<and> resolve_target env row s = (Inr i, s1))
       \<or> (x = None \<and> (\<exists>i st j s1. r = result\<lparr>action := Some Updated, postId := Some i, status := Some st\<rparr>
              \<and> resolve_target env row s = (Inr j, s1)))"
  using assms unfolding update_body_def
  by (auto split: option.splits sum.splits prod.splits if_splits)

lemma catch_row_Some: "catch_row ((Some e, r), s) = (r\<lparr>error := Some (error_text e)\<rparr>, s)"
  by (simp add: catch_row_def)

lemma catch_row_None: "catch_row ((None, r), s) = (r, s)"
  by (simp add: catch_row_def)

lemma new_result_sel:
  "action (new_result row n) = None" "postId (new_result row n) = None"
  "error (new_result row n) = None" "status (new_result row n) = None"
  by (simp_all add: new_result_def)

lemma createOrUpdatePost_shape:
  "(\<exists>e s'. createOrUpdatePost env config dc row n s = (new_result row n\<lparr>error := Some (error_text e)\<rparr>, s')
        \<and> create_body env config dc row (new_result row n) s = ((Some e, new_result row n), s'))
 \<or> (\<exists>a i st s'. createOrUpdatePost env config dc row n s
        = (new_result row n\<lparr>action := Some a, postId := Some i, status := Some st\<rparr>, s'))"
proof -
  obtain x r s' where b: "create_body env config dc row (new_result row n) s = ((x, r), s')"
    by (metis prod.exhaust)
  from create_body_result [OF b] consider
    (err) e where "x = Some e" "r = new_result row n"
  | (ok) a i st where "x = None" "r = new_result row n\<lparr>action := Some a, postId := Some i, status := Some st\<rparr>"
    by blast
  then show ?thesis
  proof cases
    case err
    have "createOrUpdatePost env config dc row n s = (new_result row n\<lparr>error := Some (error_text e)\<rparr>, s')"
      unfolding createOrUpdatePost_def b err by (rule catch_row_Some)
    with b err show ?thesis by blast
  next
    case ok
    have "createOrUpdatePost env config dc row n s
        = (new_result row n\<lparr>action := Some a, postId := Some i, status := Some st\<rparr>, s')"
      unfolding createOrUpdatePost_def b ok by (rule catch_row_None)
    then show ?thesis by blast
  qed
qed

lemma updatePost_shape:
  "(\<exists>e s' e1 s1. updatePost env config row n s = (new_result row n\<lparr>error := Some (error_text e)\<rparr>, s')
        \<and> resolve_target env row s = (Inl e1, s1))
 \<or> (\<exists>e i s' s1. updatePost env config row n s
        = (new_result row n\<lparr>postId := Some i, error := Some (error_text e)\<rparr>, s')
        \<and> resolve_target env row s = (Inr i, s1))
 \<or> (\<exists>i st s' j s1. updatePost env config row n s
        = (new_result row n\<lparr>action := Some Updated, postId := Some i, status := Some st\<rparr>, s')
        \<and> resolve_target env row s = (Inr j, s1))"
proof -
  obtain x r s' where b: "update_body env config row (new_result row n) s = ((x, r), s')"
    by (metis prod.exhaust)
  from update_body_result [OF b] consider
    (unresolved) e e1 s1 where "x = Some e" "r = new_result row n" "resolve_target env row s = (Inl e1, s1)"
  | (err) e i s1 where "x = Some e" "r = new_result row n\<lparr>postId := Some i\<rparr>"
      "resolve_target env row s = (Inr i, s1)"
  | (ok) i st j s1 where "x = None"
      "r = new_result row n\<lparr>action := Some Updated, postId := Some i, status := Some st\<rparr>"
      "resolve_target env row s = (Inr j, s1)"
    by blast
  then show ?thesis
  proof cases
    case unresolved
    have "updatePost env config row n s = (new_result row n\<lparr>error := Some (error_text e)\<rparr>, s')"
      unfolding updatePost_def b unresolved(1,2) by (rule catch_row_Some)
    with unresolved(3) show ?thesis by blast
  next
    case err
    have "updatePost env config row n s
        = (new_result row n\<lparr>postId := Some i, error := Some (error_text e)\<rparr>, s')"
      unfolding updatePost_def b err(1,2) by (rule catch_row_Some)
    with err(3) show ?thesis by blast
  next
    case ok
    have "updatePost env config row n s
        = (new_result row n\<lparr>action := Some Updated, postId := Some i, status := Some st\<rparr>, s')"
      unfolding updatePost_def b ok(1,2) by (rule catch_row_None)
    with ok(3) show ?thesis by blast
  qed
qed


text \<open>
  When the reports of a row return: whatever exception the body of a row ends with, the
  outcome has the message of the exception as its error, with the response body appended
  when there is one, and no action; and an outcome has an error exactly when it has no
  action. Both modes.
\<close>

lemma row_exceptions_caught:
  "(create_body env config dc row (new_result row n) s = ((Some e, r), s')
    \<longrightarrow> error (fst (createOrUpdatePost env config dc row n s))
          = Some (case response_data e of Some d \<Rightarrow> message e @ '': '' @ d | None \<Rightarrow> message e)
        \<and> action (fst (createOrUpdatePost env config dc row n s)) = None
        \<and> snd (createOrUpdatePost env config dc row n s) = s')
 \<and> (update_body env config row (new_result row n) s = ((Some e, r), s')
    \<longrightarrow> error (fst (updatePost env config row n s))
          = Some (case response_data e of Some d \<Rightarrow> message e @ '': '' @ d | None \<Rightarrow> message e)
        \<and> action (fst (updatePost env config row n s)) = None
        \<and> snd (updatePost env config row n s) = s')
 \<and> ((error (fst (createOrUpdatePost env config dc row n s)) \<noteq> None)
      = (action (fst (createOrUpdatePost env config dc row n s)) = None))
 \<and> ((error (fst (updatePost env config row n s)) \<noteq> None)
      = (action (fst (updatePost env config row n s)) = None))"
proof (intro conjI impI)
  assume b: "create_body env config dc row (new_result row n) s = ((Some e, r), s')"
  from create_body_result [OF b] have r: "r = new_result row n" by simp
  have "createOrUpdatePost env config dc row n s = (r\<lparr>error := Some (error_text e)\<rparr>, s')"
    unfolding createOrUpdatePost_def b by (rule catch_row_Some)
  then show "error (fst (createOrUpdatePost env config dc row n s))
          = Some (case response_data e of Some d \<Rightarrow> message e @ '': '' @ d | None \<Rightarrow> message e)"
    and "action (fst (createOrUpdatePost env config dc row n s)) = None"
    and "snd (createOrUpdatePost env config dc row n s) = s'"
    by (simp_all add: r new_result_sel error_text_def)
next
  assume b: "update_body env config row (new_result row n) s = ((Some e, r), s')"
  from update_body_result [OF b] have r: "action r = None"
    by (auto simp: new_result_sel)
  have "updatePost env config row n s = (r\<lparr>error := Some (error_text e)\<rparr>, s')"
    unfolding updatePost_def b by (rule catch_row_Some)
  then show "error (fst (updatePost env config row n s))
          = Some (case response_data e of Some d \<Rightarrow> message e @ '': '' @ d | None \<Rightarrow> message e)"
    and "action (fst (updatePost env config row n s)) = None"
    and "snd (updatePost env config row n s) = s'"
    by (simp_all add: r error_text_def)
next
  show "(error (fst (createOrUpdatePost env config dc row n s)) \<noteq> None)
      = (action (fst (createOrUpdatePost env config dc row n s)) = None)"
    using createOrUpdatePost_shape [of env config dc row n s]
    by (elim disjE exE conjE) (simp_all add: new_result_sel)
next
  show "(error (fst (updatePost env config row n s)) \<noteq> None)
      = (action (fst (updatePost env config row n s)) = None)"
    using updatePost_shape [of env config row n s]
    by (elim disjE exE conjE) (simp_all add: new_result_sel)
qed

lemma failing_create_body:
  "fst (fst (create_body failing_env demo_config demo_config row_new (new_result row_new 1) ([], [])))
     = Some (JsError ''Request failed with status code 403'' (Some ''{code:rest_cannot_create}''))"
  by code_simp

lemma missing_update_body:
  "fst (fst (update_body demo_env demo_config row_missing (new_result row_missing 2) (demo_site, [])))
     = Some (JsError (''Post with ID '' @ dq @ ''999'' @ dq @ '' not found'') None)"
  by code_simp

lemma row_exceptions_caught_example:
  "error (fst (createOrUpdatePost failing_env demo_config demo_config row_new 1 ([], [])))
     = Some ''Request failed with status code 403: {code:rest_cannot_create}''
 \<and> action (fst (createOrUpdatePost failing_env demo_config demo_config row_new 1 ([], []))) = None
 \<and> error (fst (updatePost demo_env demo_config row_missing 2 (demo_site, [])))
     = Some (''Post with ID '' @ dq @ ''999'' @ dq @ '' not found'')
 \<and> action (fst (updatePost demo_env demo_config row_missing 2 (demo_site, []))) = None"
proof -
  have c: "create_body failing_env demo_config demo_config row_new (new_result row_new 1) ([], [])
      = ((Some (JsError ''Request failed with status code 403'' (Some ''{code:rest_cannot_create}'')),
          snd (fst (create_body failing_env demo_config demo_config row_new (new_result row_new 1) ([], [])))),
         snd (create_body failing_env demo_config demo_config row_new (new_result row_new 1) ([], [])))"
    using failing_create_body by (metis prod.collapse)
  have u: "update_body demo_env demo_config row_missing (new_result row_missing 2) (demo_site, [])
      = ((Some (JsError (''Post with ID '' @ dq @ ''999'' @ dq @ '' not found'') None),
          snd (fst (update_body demo_env demo_config row_missing (new_result row_missing 2) (demo_site, [])))),
         snd (update_body demo_env demo_config row_missing (new_result row_missing 2) (demo_site, [])))"
    using missing_update_body by (metis prod.collapse)
  from row_exceptions_caught [THEN conjunct1, rule_format, OF c]
       row_exceptions_caught [THEN conjunct2, THEN conjunct1, rule_format, OF u]
  show ?thesis by simp
qed

text \<open>
  With reports that return, the row functions with their reports return the same outcome
  after the same calls.
\<close>

lemma row_end_returns:
  assumes "\<And>r w. \<exists>w'. console_log io r w = (Inr (), w')"
    and "\<And>r w. \<exists>w'. console_error io r w = (Inr (), w')"
    and "\<And>cb r w. progressCallback io = Some cb \<Longrightarrow> \<exists>w'. cb r w = (Inr (), w')"
  shows "fst (row_end io b) = Inr (fst (catch_row b)) \<and> snd (snd (row_end io b)) = snd (snd (catch_row b))"
proof -
  have e1: "\<exists>s'. emit (console_log io r) s = (Inr (), s') \<and> snd s' = snd s" for r s
    using assms(1) [of r "fst s"] by (auto simp: emit_def)
  have e2: "\<exists>s'. emit (console_error io r) s = (Inr (), s') \<and> snd s' = snd s" for r s
    using assms(2) [of r "fst s"] by (auto simp: emit_def)
  have e3: "\<exists>s'. notify io r s = (Inr (), s') \<and> snd s' = snd s" for r s
  proof (cases "progressCallback io")
    case None
    then show ?thesis by (simp add: notify_def)
  next
    case (Some cb)
    with assms(3) [OF Some, of r "fst s"] show ?thesis by (auto simp: notify_def emit_def)
  qed
  have c: "fst (catch_block io e result s) = Inr (result\<lparr>error := Some (error_text e)\<rparr>)
      \<and> snd (snd (catch_block io e result s)) = snd s" for e result s
  proof -
    obtain s1 where s1: "emit (console_error io (Failure (result\<lparr>error := Some (error_text e)\<rparr>))) s = (Inr (), s1)"
      "snd s1 = snd s" using e2 by blast
    obtain s2 where s2: "notify io (Failure (result\<lparr>error := Some (error_text e)\<rparr>)) s1 = (Inr (), s2)"
      "snd s2 = snd s1" using e3 by blast
    show ?thesis by (simp add: catch_block_def s1 s2)
  qed
  obtain x result s where b: "b = ((x, result), s)" by (metis prod.exhaust)
  show ?thesis
  proof (cases x)
    case (Some e)
    with b c [of e result s] show ?thesis by (simp add: row_end_def catch_row_def)
  next
    case None
    obtain s1 where s1: "emit (console_log io (Success result)) s = (Inr (), s1)" "snd s1 = snd s"
      using e1 by blast
    obtain s2 where s2: "notify io (Success result) s1 = (Inr (), s2)" "snd s2 = snd s1"
      using e3 by blast
    from None b show ?thesis by (simp add: row_end_def catch_row_def s1 s2)
  qed
qed

lemma rows_return_when_reports_do:
  assumes "\<And>r w. \<exists>w'. console_log io r w = (Inr (), w')"
    and "\<And>r w. \<exists>w'. console_error io r w = (Inr (), w')"
    and "\<And>cb r w. progressCallback io = Some cb \<Longrightarrow> \<exists>w'. cb r w = (Inr (), w')"
  shows "fst (createOrUpdatePost_reporting io env config dc row n s)
           = Inr (fst (createOrUpdatePost env config dc row n s))"
    and "fst (updatePost_reporting io env config row n s) = Inr (fst (updatePost env config row n s))"
proof -
  have r: "fst (row_end io b) = Inr (fst (catch_row b))" for b
    by (rule row_end_returns [of io, THEN conjunct1]) (use assms in blast)+
  show "fst (createOrUpdatePost_reporting io env config dc row n s)
           = Inr (fst (createOrUpdatePost env config dc row n s))"
    by (simp add: createOrUpdatePost_reporting_def createOrUpdatePost_def r)
  show "fst (updatePost_reporting io env config row n s) = Inr (fst (updatePost env config row n s))"
    by (simp add: updatePost_reporting_def updatePost_def r)
qed

text \<open>
  Claim C2 does not hold of the code: the row function can raise. The \<^verbatim>\<open>catch\<close> block of
  a row writes its message with \<^verbatim>\<open>console.error\<close> and calls the progress callback, and
  nothing encloses the block. In the upload script \<^verbatim>\<open>console.error\<close> appends to the debug
  log: on a full disk the row with a title and no content throws the missing-field error
  in its body, the \<^verbatim>\<open>catch\<close> block throws on the append, and the row function raises that
  exception. In update mode a callback that throws makes the row of a post that is not
  found raise, and the row of a post that has just been updated as well. And a callback
  that throws on the success event alone gives an outcome that has both the action of
  the update and an error.
\<close>

theorem row_function_raises:
  "fst (create_body demo_env demo_config demo_config row_title_only (new_result row_title_only 2)
          (demo_site, []))
     = (Some (Error ''Missing required field: content''), new_result row_title_only 2)
 \<and> fst (createOrUpdatePost_reporting full_disk_io demo_env demo_config demo_config row_title_only 2
          (demo_site, []))
     = Inl (Error ''ENOSPC: no space left on device, write'')
 \<and> fst (fst (update_body demo_env demo_config row_missing (new_result row_missing 3) (demo_site, [])))
     = Some (Error (''Post with ID '' @ dq @ ''999'' @ dq @ '' not found''))
 \<and> fst (updatePost_reporting closed_stream_io demo_env demo_config row_missing 3 (demo_site, []))
     = Inl (Error ''write after end'')
 \<and> updatePost_reporting closed_stream_io demo_env demo_config row_slug_only 4 (demo_site, [])
     = (Inl (Error ''write after end''),
        (demo_site, [GetPostsBySlug ''hello-world'', GetPost ''5'', Sleep 300,
                     PostPost 5 [(''slug'', PStr ''hello-world'')]]))
 \<and> fst (updatePost_reporting success_throws_io demo_env demo_config row_slug_only 6 (demo_site, []))
     = Inr \<lparr>rowNumber = 6, title = ''Untitled'', action = Some Updated, postId = Some 5,
            status = Some ''publish'', error = Some ''Cannot read properties of undefined''\<rparr>"
  by code_simp






section \<open>Rows of update mode\<close>

lemma field_Some: "field row k = Some v \<Longrightarrow> v \<noteq> [] \<and> trim v = v"
  by (auto simp: field_def trim_idem split: option.splits if_splits)

lemma prepare_updateData_only:
  assumes "list_all (\<lambda>k. field row k = None)
     [''excerpt'', ''acf_json'', ''categories'', ''tags'', ''featured_image_path'', ''featured_image_url'']"
  shows "prepare_updateData env config row s
     = (Inr (set_field row ''slug'' (set_field row ''status'' (set_field row ''content''
            (set_field row ''title'' [])))), s)"
  using assms
  by (simp add: prepare_updateData_def set_field_def set_acf_def set_terms_def imagePath_def)

lemma update_id_only:
  assumes id: "field row ''post_id'' = Some ref"
    and blank: "list_all (\<lambda>k. field row k = None)
       [''title'', ''content'', ''status'', ''slug'', ''excerpt'', ''acf_json'', ''categories'', ''tags'',
        ''featured_image_path'', ''featured_image_url'']"
    and found: "api_get_post env ref w = (Inr p0, w1)" "post_id p0 \<noteq> 0"
    and fetched: "api_get_post env (decimal (post_id p0)) w1 = (Inr p1, w2)"
  shows "updatePost env config row n (w, tr)
     = (new_result row n\<lparr>postId := Some (post_id p0), error := Some (message nothing_to_update)\<rparr>,
        (w2, tr @ [GetPost ref, GetPost (decimal (post_id p0))]))"
proof -
  from field_Some [OF id] have ref: "ref \<noteq> []" by simp
  have r: "resolve_target env row (w, tr) = (Inr (post_id p0), (w1, tr @ [GetPost ref]))"
    using id ref found by (simp add: resolve_target_def findPostById_def call_def truthy_id_def)
  have p: "prepare_updateData env config row (w2, tr @ [GetPost ref, GetPost (decimal (post_id p0))])
      = (Inr [], (w2, tr @ [GetPost ref, GetPost (decimal (post_id p0))]))"
    using blank by (simp add: prepare_updateData_only set_field_def)
  have "update_body env config row (new_result row n) (w, tr)
      = ((Some nothing_to_update, new_result row n\<lparr>postId := Some (post_id p0)\<rparr>),
         (w2, tr @ [GetPost ref, GetPost (decimal (post_id p0))]))"
    unfolding update_body_def r using fetched p by (simp add: call_def)
  then show ?thesis
    by (simp add: updatePost_def catch_row_def error_text_def nothing_to_update_def Error_def)
qed

lemma update_slug_only:
  assumes slug: "field row ''slug'' = Some sl"
    and blank: "list_all (\<lambda>k. field row k = None)
       [''post_id'', ''title'', ''content'', ''status'', ''excerpt'', ''acf_json'', ''categories'', ''tags'',
        ''featured_image_path'', ''featured_image_url'']"
    and found: "api_get_posts_by_slug env sl w = (Inr (p0 # ps), w1)" "post_id p0 \<noteq> 0"
    and fetched: "api_get_post env (decimal (post_id p0)) w1 = (Inr p1, w2)"
    and updated: "api_post_post env (post_id p0) [(''slug'', PStr sl)] w2 = (Inr p2, w3)"
  shows "updatePost env config row n (w, tr)
     = (new_result row n\<lparr>action := Some Updated, postId := Some (post_id p2),
                          status := Some (post_status p2)\<rparr>,
        (w3, tr @ [GetPostsBySlug sl, GetPost (decimal (post_id p0)), Sleep (request_delay_ms config),
                   PostPost (post_id p0) [(''slug'', PStr sl)]]))"
proof -
  from field_Some [OF slug] have sl: "sl \<noteq> []" "trim sl = sl" by simp_all
  have r: "resolve_target env row (w, tr) = (Inr (post_id p0), (w1, tr @ [GetPostsBySlug sl]))"
    using slug sl blank found
    by (simp add: resolve_target_def findPostBySlug_def call_def truthy_id_def)
  have p: "prepare_updateData env config row (w2, tr @ [GetPostsBySlug sl, GetPost (decimal (post_id p0))])
      = (Inr [(''slug'', PStr sl)], (w2, tr @ [GetPostsBySlug sl, GetPost (decimal (post_id p0))]))"
    using blank slug by (simp add: prepare_updateData_only set_field_def)
  have "update_body env config row (new_result row n) (w, tr)
      = ((None, new_result row n\<lparr>action := Some Updated, postId := Some (post_id p2),
                                   status := Some (post_status p2)\<rparr>),
         (w3, tr @ [GetPostsBySlug sl, GetPost (decimal (post_id p0)), Sleep (request_delay_ms config),
                   PostPost (post_id p0) [(''slug'', PStr sl)]]))"
    unfolding update_body_def r using fetched p updated by (simp add: call_def sleep_def)
  then show ?thesis by (simp add: updatePost_def catch_row_def)
qed

text \<open>
  Claim C8: an update row whose post_id finds a post and whose other columns are all
  absent or blank fails with the error that there is nothing to update; its action
  stays unset, and after the two requests that read the post no request is made.
\<close>

theorem empty_update_rejected:
  assumes "field row ''post_id'' = Some ref"
    and "list_all (\<lambda>k. field row k = None)
       [''title'', ''content'', ''status'', ''slug'', ''excerpt'', ''acf_json'', ''categories'', ''tags'',
        ''featured_image_path'', ''featured_image_url'']"
    and "api_get_post env ref w = (Inr p0, w1)" and "post_id p0 \<noteq> 0"
    and "api_get_post env (decimal (post_id p0)) w1 = (Inr p1, w2)"
  shows "action (fst (updatePost env config row n (w, tr))) = None
     \<and> error (fst (updatePost env config row n (w, tr)))
         = Some ''No fields to update. Provide at least one field to update.''
     \<and> snd (updatePost env config row n (w, tr))
         = (w2, tr @ [GetPost ref, GetPost (decimal (post_id p0))])"
  using update_id_only [OF assms, of config n tr]
  by (simp add: new_result_sel nothing_to_update_def Error_def)

lemma demo_get_post_5:
  "field row_id_only ''post_id'' = Some ''5''"
  "api_get_post demo_env ''5'' demo_site = (Inr hello_post, demo_site)"
  "api_get_post demo_env (decimal 5) demo_site = (Inr hello_post, demo_site)"
  "post_id hello_post = 5"
  by code_simp+

lemma row_id_only_blank:
  "list_all (\<lambda>k. field row_id_only k = None)
       [''title'', ''content'', ''status'', ''slug'', ''excerpt'', ''acf_json'', ''categories'', ''tags'',
        ''featured_image_path'', ''featured_image_url'']"
  by (simp add: row_id_only_def field_def)

theorem empty_update_rejected_witness:
  "action (fst (updatePost demo_env demo_config row_id_only 2 (demo_site, []))) = None
 \<and> error (fst (updatePost demo_env demo_config row_id_only 2 (demo_site, [])))
     = Some ''No fields to update. Provide at least one field to update.''
 \<and> snd (updatePost demo_env demo_config row_id_only 2 (demo_site, []))
     = (demo_site, [GetPost ''5'', GetPost ''5''])"
proof -
  have d: "decimal 5 = ''5''" by code_simp
  from empty_update_rejected [of row_id_only "''5''" demo_env demo_site hello_post demo_site hello_post
      demo_site demo_config 2 "[]", OF demo_get_post_5(1) row_id_only_blank]
  show ?thesis by (simp add: demo_get_post_5 d)
qed

text \<open>
  Claim C10: an update row whose only populated column is slug is not an empty update.
  The slug that finds the post is copied into the update payload, the update is sent
  with that payload, and when it succeeds the action is updated; a row whose only
  populated column is post_id fails with the error that there is nothing to update.
\<close>

theorem slug_only_update_sent:
  "(field row ''slug'' = Some sl
     \<and> list_all (\<lambda>k. field row k = None)
         [''post_id'', ''title'', ''content'', ''status'', ''excerpt'', ''acf_json'', ''categories'', ''tags'',
          ''featured_image_path'', ''featured_image_url'']
     \<and> api_get_posts_by_slug env sl w = (Inr (p0 # ps), w1) \<and> post_id p0 \<noteq> 0
     \<and> api_get_post env (decimal (post_id p0)) w1 = (Inr p1, w2)
     \<and> api_post_post env (post_id p0) [(''slug'', PStr sl)] w2 = (Inr p2, w3)
    \<longrightarrow> updatePost env config row n (w, tr)
          = (new_result row n\<lparr>action := Some Updated, postId := Some (post_id p2),
                               status := Some (post_status p2)\<rparr>,
             (w3, tr @ [GetPostsBySlug sl, GetPost (decimal (post_id p0)),
                        Sleep (request_delay_ms config), PostPost (post_id p0) [(''slug'', PStr sl)]])))
 \<and> (field row ''post_id'' = Some ref
     \<and> list_all (\<lambda>k. field row k = None)
         [''title'', ''content'', ''status'', ''slug'', ''excerpt'', ''acf_json'', ''categories'', ''tags'',
          ''featured_image_path'', ''featured_image_url'']
     \<and> api_get_post env ref w = (Inr p0, w1) \<and> post_id p0 \<noteq> 0
     \<and> api_get_post env (decimal (post_id p0)) w1 = (Inr p1, w2)
    \<longrightarrow> action (fst (updatePost env config row n (w, tr))) = None
        \<and> error (fst (updatePost env config row n (w, tr)))
            = Some ''No fields to update. Provide at least one field to update.'')"
proof (intro conjI impI)
  assume h: "field row ''slug'' = Some sl
     \<and> list_all (\<lambda>k. field row k = None)
         [''post_id'', ''title'', ''content'', ''status'', ''excerpt'', ''acf_json'', ''categories'', ''tags'',
          ''featured_image_path'', ''featured_image_url'']
     \<and> api_get_posts_by_slug env sl w = (Inr (p0 # ps), w1) \<and> post_id p0 \<noteq> 0
     \<and> api_get_post env (decimal (post_id p0)) w1 = (Inr p1, w2)
     \<and> api_post_post env (post_id p0) [(''slug'', PStr sl)] w2 = (Inr p2, w3)"
  show "updatePost env config row n (w, tr)
          = (new_result row n\<lparr>action := Some Updated, postId := Some (post_id p2),
                               status := Some (post_status p2)\<rparr>,
             (w3, tr @ [GetPostsBySlug sl, GetPost (decimal (post_id p0)),
                        Sleep (request_delay_ms config), PostPost (post_id p0) [(''slug'', PStr sl)]]))"
    by (rule update_slug_only [where ps = ps and ?p1.0 = p1 and ?w1.0 = w1 and ?w2.0 = w2])
       (use h in simp_all)
next
  assume h: "field row ''post_id'' = Some ref
     \<and> list_all (\<lambda>k. field row k = None)
         [''title'', ''content'', ''status'', ''slug'', ''excerpt'', ''acf_json'', ''categories'', ''tags'',
          ''featured_image_path'', ''featured_image_url'']
     \<and> api_get_post env ref w = (Inr p0, w1) \<and> post_id p0 \<noteq> 0
     \<and> api_get_post env (decimal (post_id p0)) w1 = (Inr p1, w2)"
  have "updatePost env config row n (w, tr)
     = (new_result row n\<lparr>postId := Some (post_id p0), error := Some (message nothing_to_update)\<rparr>,
        (w2, tr @ [GetPost ref, GetPost (decimal (post_id p0))]))"
    by (rule update_id_only [where ?p1.0 = p1 and ?w1.0 = w1]) (use h in simp_all)
  then show "action (fst (updatePost env config row n (w, tr))) = None"
    and "error (fst (updatePost env config row n (w, tr)))
            = Some ''No fields to update. Provide at least one field to update.''"
    by (simp_all add: new_result_sel nothing_to_update_def Error_def)
qed

lemma demo_slug_only:
  "field row_slug_only ''slug'' = Some ''hello-world''"
  "api_get_posts_by_slug demo_env ''hello-world'' demo_site = (Inr [hello_post], demo_site)"
  "api_post_post demo_env 5 [(''slug'', PStr ''hello-world'')] demo_site = (Inr hello_post, demo_site)"
  "new_result row_slug_only 4 = \<lparr>rowNumber = 4, title = ''Untitled'', action = None, postId = None,
      status = None, error = None\<rparr>"
  "post_status hello_post = ''publish''"
  "request_delay_ms demo_config = 300"
  by code_simp+

lemma row_slug_only_blank:
  "list_all (\<lambda>k. field row_slug_only k = None)
         [''post_id'', ''title'', ''content'', ''status'', ''excerpt'', ''acf_json'', ''categories'', ''tags'',
          ''featured_image_path'', ''featured_image_url'']"
  by (simp add: row_slug_only_def field_def)

theorem slug_only_update_sent_witness:
  "updatePost demo_env demo_config row_slug_only 4 (demo_site, [])
     = (\<lparr>rowNumber = 4, title = ''Untitled'', action = Some Updated, postId = Some 5,
         status = Some ''publish'', error = None\<rparr>,
        (demo_site, [GetPostsBySlug ''hello-world'', GetPost ''5'', Sleep 300,
                     PostPost 5 [(''slug'', PStr ''hello-world'')]]))
 \<and> action (fst (updatePost demo_env demo_config row_id_only 2 (demo_site, []))) = None
 \<and> error (fst (updatePost demo_env demo_config row_id_only 2 (demo_site, [])))
     = Some ''No fields to update. Provide at least one field to update.''"
proof -
  have d: "decimal 5 = ''5''" by code_simp
  have a: "updatePost demo_env demo_config row_slug_only 4 (demo_site, [])
     = (\<lparr>rowNumber = 4, title = ''Untitled'', action = Some Updated, postId = Some 5,
         status = Some ''publish'', error = None\<rparr>,
        (demo_site, [GetPostsBySlug ''hello-world'', GetPost ''5'', Sleep 300,
                     PostPost 5 [(''slug'', PStr ''hello-world'')]]))"
    using slug_only_update_sent [of row_slug_only "''hello-world''" demo_env demo_site hello_post "[]"
        demo_site hello_post demo_site hello_post demo_site demo_config 4 "[]", THEN conjunct1]
      row_slug_only_blank
    by (simp add: demo_slug_only demo_get_post_5 d)
  have b: "action (fst (updatePost demo_env demo_config row_id_only 2 (demo_site, []))) = None
 \<and> error (fst (updatePost demo_env demo_config row_id_only 2 (demo_site, [])))
     = Some ''No fields to update. Provide at least one field to update.''"
    using slug_only_update_sent [of _ _ demo_env demo_site hello_post _ demo_site hello_post demo_site _ _
        demo_config, where row = row_id_only and ref = "''5''" and n = 2 and tr = "[]", THEN conjunct2]
      row_id_only_blank
    by (simp add: demo_get_post_5 d)
  from a b show ?thesis by simp
qed


section \<open>The duplicate gate of create mode\<close>

lemma find_pages_cap_still:
  assumes full: "\<And>p w. 1 \<le> p \<Longrightarrow> p \<le> 10 \<Longrightarrow>
     \<exists>posts. api_get_posts_page env (listing p) w = (Inr posts, w) \<and> length posts = 100
        \<and> scan_page t posts = NoMatch"
  shows "1 \<le> page \<Longrightarrow> page \<le> 10 \<Longrightarrow>
     find_pages env t page s = (None, (fst s, snd s @ map (\<lambda>p. GetPostsPage (listing p)) [page..<11]))"
proof (induction "10 - page" arbitrary: page s)
  case 0
  then have page: "page = 10" by simp
  from full [of page "fst s"] page obtain posts where
    p: "api_get_posts_page env (listing page) (fst s) = (Inr posts, fst s)" "length posts = 100"
       "scan_page t posts = NoMatch" by auto
  have ne: "posts \<noteq> []" using p(2) by auto
  have "find_pages env t page s = (None, (fst s, snd s @ [GetPostsPage (listing page)]))"
    using p ne page by (subst find_pages.simps) (simp add: call_def)
  with page show ?case by simp
next
  case (Suc n)
  then have page: "page < 10" "1 \<le> page" by simp_all
  from full [of page "fst s"] page obtain posts where
    p: "api_get_posts_page env (listing page) (fst s) = (Inr posts, fst s)" "length posts = 100"
       "scan_page t posts = NoMatch" by auto
  have ne: "posts \<noteq> []" using p(2) by auto
  define s1 where "s1 = (fst s, snd s @ [GetPostsPage (listing page)])"
  have eq: "find_pages env t page s = find_pages env t (page + 1) s1"
    using p ne page by (subst find_pages.simps) (simp add: call_def s1_def)
  have "n = 10 - (page + 1)" using Suc.hyps(2) by simp
  from Suc.hyps(1) [OF this] page
  have ih: "find_pages env t (page + 1) s1
       = (None, (fst s1, snd s1 @ map (\<lambda>p. GetPostsPage (listing p)) [page + 1..<11]))"
    by simp
  have "[page..<11] = page # [page + 1..<11]" using page by (simp add: upt_rec)
  with ih eq show ?case by (simp add: s1_def)
qed

lemma create_duplicate:
  assumes "field row ''title'' = Some ttl" "field row ''content'' = Some content"
    and "prepare_postData env config dc row ttl content s = (Inr postData, s1)"
    and "findPostByTitle env ttl s1 = (Some d, s2)" "d \<noteq> 0"
  shows "createOrUpdatePost env config dc row n s
     = (new_result row n\<lparr>error := Some (duplicate_message ttl d)\<rparr>, s2)"
  using assms
  by (simp add: createOrUpdatePost_def create_body_def truthy_id_def catch_row_def error_text_def
      Error_def)

lemma truthy_id_Some: "(truthy_id e = Some i) = (e = Some i \<and> i \<noteq> 0)"
  by (auto simp: truthy_id_def split: option.splits)

lemma create_body_updated:
  assumes "create_body env config dc row result s = ((None, r), s')" "action result = None"
    "action r = Some Updated"
  shows "\<exists>ttl content postData s1 e s2 sl i s3.
     field row ''title'' = Some ttl \<and> field row ''content'' = Some content
     \<and> prepare_postData env config dc row ttl content s = (Inr postData, s1)
     \<and> findPostByTitle env ttl s1 = (e, s2) \<and> truthy_id e = None
     \<and> field row ''slug'' = Some sl \<and> findPostBySlug env sl s2 = (Some i, s3) \<and> i \<noteq> 0
     \<and> snd s' = snd s3 @ [Sleep (request_delay_ms config), PostPost i postData]"
  using assms unfolding create_body_def submit_post_def
  by (auto simp: truthy_id_Some call_def sleep_def
      split: option.splits sum.splits prod.splits)

text \<open>
  The search answers with the first listed post that has the title, when the posts
  listed before it have other titles.
\<close>

lemma scan_page_others:
  "list_all (other_title ttl) pre \<Longrightarrow> scan_page (normalizeTitle ttl) (pre @ ps) = scan_page (normalizeTitle ttl) ps"
  by (induction pre) (auto simp: other_title_def split: option.splits)

lemma scan_page_same:
  "same_title ttl p \<Longrightarrow> scan_page (normalizeTitle ttl) (p # ps) = Match (post_id p)"
  by (auto simp: same_title_def split: option.splits)

lemma scan_page_first:
  "list_all (other_title ttl) pre \<Longrightarrow> same_title ttl p \<Longrightarrow>
   scan_page (normalizeTitle ttl) (pre @ p # rest) = Match (post_id p)"
  by (simp only: scan_page_others scan_page_same)

lemma find_pages_first_match:
  assumes "same_title ttl p"
  shows "scanned_posts env page (fst s) = pre @ p # rest \<Longrightarrow> list_all (other_title ttl) pre \<Longrightarrow>
     fst (find_pages env (normalizeTitle ttl) page s) = Some (post_id p)"
proof (induction "10 - page" arbitrary: page s pre)
  case 0
  then have page: "\<not> page + 1 \<le> 10" by simp
  obtain r w1 where c: "api_get_posts_page env (listing page) (fst s) = (r, w1)"
    by (metis prod.exhaust)
  with "0.prems"(1) page obtain posts where r: "r = Inr posts" "posts = pre @ p # rest"
    by (subst (asm) scanned_posts.simps) (auto split: sum.splits)
  have "scan_page (normalizeTitle ttl) posts = Match (post_id p)"
    using r(2) "0.prems"(2) assms by (simp only: scan_page_first)
  with c r show ?case
    by (subst find_pages.simps) (simp add: call_def)
next
  case (Suc n)
  then have page: "page + 1 \<le> 10" by simp
  obtain r w1 where c: "api_get_posts_page env (listing page) (fst s) = (r, w1)"
    by (metis prod.exhaust)
  with Suc.prems(1) obtain posts where r: "r = Inr posts"
    by (subst (asm) scanned_posts.simps) (auto split: sum.splits)
  define s1 where "s1 = (w1, snd s @ [GetPostsPage (listing page)])"
  show ?case
  proof (cases "length posts < 100")
    case True
    with Suc.prems(1) c r have "posts = pre @ p # rest"
      by (subst (asm) scanned_posts.simps) simp
    then have "scan_page (normalizeTitle ttl) posts = Match (post_id p)"
      using Suc.prems(2) assms by (simp only: scan_page_first)
    with c r show ?thesis
      by (subst find_pages.simps) (auto simp: call_def)
  next
    case False
    with Suc.prems(1) c r page
    have eq: "posts @ scanned_posts env (page + 1) w1 = pre @ p # rest"
      by (subst (asm) scanned_posts.simps) simp
    have ne: "posts \<noteq> []" using False by auto
    from eq consider
      (here) us where "posts = pre @ p # us"
      | (later) us where "pre = posts @ us" "scanned_posts env (page + 1) w1 = us @ p # rest"
      by (auto simp: append_eq_append_conv2 append_eq_Cons_conv Cons_eq_append_conv)
    then show ?thesis
    proof cases
      case here
      then have "scan_page (normalizeTitle ttl) posts = Match (post_id p)"
        using Suc.prems(2) assms by (simp only: scan_page_first)
      with c r ne show ?thesis
        by (subst find_pages.simps) (simp add: call_def)
    next
      case later
      from later(1) Suc.prems(2) have o: "list_all (other_title ttl) posts" "list_all (other_title ttl) us"
        by simp_all
      have "scan_page (normalizeTitle ttl) (posts @ []) = NoMatch"
        using o(1) by (subst scan_page_others) simp_all
      then have nm: "scan_page (normalizeTitle ttl) posts = NoMatch" by simp
      have step: "find_pages env (normalizeTitle ttl) page s = find_pages env (normalizeTitle ttl) (page + 1) s1"
        using c r ne nm False page by (subst find_pages.simps) (simp add: call_def s1_def)
      have "n = 10 - (page + 1)" using Suc.hyps(2) by simp
      from Suc.hyps(1) [OF this, of s1 us] later(2) o(2)
      show ?thesis by (simp add: step s1_def)
    qed
  qed
qed


lemma findPostByTitle_first_match:
  assumes "trim ttl \<noteq> []" "scanned_posts env 1 (fst s) = pre @ p # rest"
    "list_all (other_title ttl) pre" "same_title ttl p"
  shows "fst (findPostByTitle env ttl s) = Some (post_id p)"
  using find_pages_first_match [OF assms(4,2,3)] assms(1) by (simp add: findPostByTitle_def)

lemma create_first_match:
  assumes f: "field row ''title'' = Some ttl" "field row ''content'' = Some content"
    and p: "prepare_postData env config dc row ttl content s = (Inr postData, s1)"
    and l: "scanned_posts env 1 (fst s1) = pre @ p # rest" "list_all (other_title ttl) pre"
       "same_title ttl p" "post_id p \<noteq> 0"
  shows "fst (createOrUpdatePost env config dc row n s)
           = new_result row n\<lparr>error := Some (duplicate_message ttl (post_id p))\<rparr>"
    and "\<exists>k\<le>10. snd (snd (createOrUpdatePost env config dc row n s))
           = snd s1 @ map (\<lambda>p. GetPostsPage (listing p)) [1..<Suc k]"
proof -
  from field_Some [OF f(1)] have t: "trim ttl \<noteq> []" by simp
  obtain s2 where s2: "findPostByTitle env ttl s1 = (Some (post_id p), s2)"
    using findPostByTitle_first_match [OF t l(1,2,3)] by (metis prod.collapse)
  from create_duplicate [OF f p s2 l(4)]
  have c: "createOrUpdatePost env config dc row n s
     = (new_result row n\<lparr>error := Some (duplicate_message ttl (post_id p))\<rparr>, s2)" .
  then show "fst (createOrUpdatePost env config dc row n s)
           = new_result row n\<lparr>error := Some (duplicate_message ttl (post_id p))\<rparr>" by simp
  from findPostByTitle_trace [of env ttl "fst s1" "snd s1"] s2 c
  show "\<exists>k\<le>10. snd (snd (createOrUpdatePost env config dc row n s))
           = snd s1 @ map (\<lambda>p. GetPostsPage (listing p)) [1..<Suc k]" by simp
qed

text \<open>
  Claim C3, as the code has it: in create mode the duplicate search by title comes before
  the slug lookup. Take a row that has passed validation and whose payload is prepared.
  When the first post of the site's listing, among those the search can reach (the
  thousand newest at most), that has the row's normalised title follows only posts whose
  title text normalises to another title, the row fails with the duplicate error naming
  that post and with no action, whatever its slug, and after the listing requests of the
  search no request is made. So when every post the search can reach has a title text,
  a row whose normalised title is that of one of them fails with the duplicate error
  that names a post with this title. A row is updated by its slug only when the search
  before found nothing.
\<close>

theorem duplicate_gate_first:
  "(field row ''title'' = Some ttl \<and> field row ''content'' = Some content
     \<and> prepare_postData env config dc row ttl content s = (Inr postData, s1)
     \<and> scanned_posts env 1 (fst s1) = pre @ p # rest
     \<and> list_all (other_title ttl) pre \<and> same_title ttl p \<and> post_id p \<noteq> 0
    \<longrightarrow> action (fst (createOrUpdatePost env config dc row n s)) = None
        \<and> error (fst (createOrUpdatePost env config dc row n s))
            = Some (''Post with title '' @ dq @ ttl @ dq @ '' already exists (ID: ''
                     @ decimal (post_id p) @ ''). Duplicate posts are not allowed.'')
        \<and> (\<exists>k\<le>10. snd (snd (createOrUpdatePost env config dc row n s))
              = snd s1 @ map (\<lambda>p. GetPostsPage (listing p)) [1..<Suc k]))
 \<and> (field row ''title'' = Some ttl \<and> field row ''content'' = Some content
     \<and> prepare_postData env config dc row ttl content s = (Inr postData, s1)
     \<and> q \<in> set (scanned_posts env 1 (fst s1)) \<and> same_title ttl q
     \<and> list_all (\<lambda>r. postTitleRaw (post_title r) \<noteq> None \<and> post_id r \<noteq> 0)
          (scanned_posts env 1 (fst s1))
    \<longrightarrow> action (fst (createOrUpdatePost env config dc row n s)) = None
        \<and> (\<exists>d\<in>set (scanned_posts env 1 (fst s1)). same_title ttl d
              \<and> error (fst (createOrUpdatePost env config dc row n s))
                  = Some (duplicate_message ttl (post_id d))))
 \<and> (action (fst (createOrUpdatePost env config dc row n s)) = Some Updated
    \<longrightarrow> (\<exists>ttl content postData s1 e s2 sl i s3.
          field row ''title'' = Some ttl \<and> field row ''content'' = Some content
          \<and> prepare_postData env config dc row ttl content s = (Inr postData, s1)
          \<and> findPostByTitle env ttl s1 = (e, s2) \<and> truthy_id e = None
          \<and> field row ''slug'' = Some sl \<and> findPostBySlug env sl s2 = (Some i, s3) \<and> i \<noteq> 0
          \<and> snd (snd (createOrUpdatePost env config dc row n s))
              = snd s3 @ [Sleep (request_delay_ms config), PostPost i postData]))"
proof (intro conjI impI)
  assume h: "field row ''title'' = Some ttl \<and> field row ''content'' = Some content
     \<and> prepare_postData env config dc row ttl content s = (Inr postData, s1)
     \<and> scanned_posts env 1 (fst s1) = pre @ p # rest
     \<and> list_all (other_title ttl) pre \<and> same_title ttl p \<and> post_id p \<noteq> 0"
  then have c: "fst (createOrUpdatePost env config dc row n s)
           = new_result row n\<lparr>error := Some (duplicate_message ttl (post_id p))\<rparr>"
    by (intro create_first_match(1) [where postData = postData and ?s1.0 = s1 and content = content
          and pre = pre and rest = rest]) simp_all
  then show "action (fst (createOrUpdatePost env config dc row n s)) = None"
    and "error (fst (createOrUpdatePost env config dc row n s))
            = Some (''Post with title '' @ dq @ ttl @ dq @ '' already exists (ID: ''
                     @ decimal (post_id p) @ ''). Duplicate posts are not allowed.'')"
    by (simp_all add: new_result_sel duplicate_message_def)
  from h show "\<exists>k\<le>10. snd (snd (createOrUpdatePost env config dc row n s))
              = snd s1 @ map (\<lambda>p. GetPostsPage (listing p)) [1..<Suc k]"
    by (intro create_first_match(2) [where postData = postData and ttl = ttl and content = content
          and pre = pre and rest = rest and p = p]) simp_all
next
  assume h: "field row ''title'' = Some ttl \<and> field row ''content'' = Some content
     \<and> prepare_postData env config dc row ttl content s = (Inr postData, s1)
     \<and> q \<in> set (scanned_posts env 1 (fst s1)) \<and> same_title ttl q
     \<and> list_all (\<lambda>r. postTitleRaw (post_title r) \<noteq> None \<and> post_id r \<noteq> 0)
          (scanned_posts env 1 (fst s1))"
  then have "\<exists>x\<in>set (scanned_posts env 1 (fst s1)). same_title ttl x" by blast
  from split_list_first_prop [OF this]
  obtain pre d rest where sp: "scanned_posts env 1 (fst s1) = pre @ d # rest" "same_title ttl d"
    "\<forall>y\<in>set pre. \<not> same_title ttl y" by blast
  from h sp(1) have ok: "\<forall>r\<in>set pre. postTitleRaw (post_title r) \<noteq> None" "post_id d \<noteq> 0"
    by (simp_all add: list_all_iff)
  with sp(3) have o: "list_all (other_title ttl) pre"
    by (auto simp: list_all_iff other_title_def same_title_def split: option.splits)
  from h have c: "fst (createOrUpdatePost env config dc row n s)
           = new_result row n\<lparr>error := Some (duplicate_message ttl (post_id d))\<rparr>"
    by (intro create_first_match(1) [where postData = postData and ?s1.0 = s1 and content = content
          and pre = pre and rest = rest, OF _ _ _ sp(1) o sp(2) ok(2)]) simp_all
  then show "action (fst (createOrUpdatePost env config dc row n s)) = None"
    by (simp add: new_result_sel)
  from c sp have "d \<in> set (scanned_posts env 1 (fst s1)) \<and> same_title ttl d
     \<and> error (fst (createOrUpdatePost env config dc row n s)) = Some (duplicate_message ttl (post_id d))"
    by (simp add: new_result_sel)
  then show "\<exists>d\<in>set (scanned_posts env 1 (fst s1)). same_title ttl d
              \<and> error (fst (createOrUpdatePost env config dc row n s))
                  = Some (duplicate_message ttl (post_id d))" by blast
next
  assume u: "action (fst (createOrUpdatePost env config dc row n s)) = Some Updated"
  obtain x r s' where b: "create_body env config dc row (new_result row n) s = ((x, r), s')"
    by (metis prod.exhaust)
  from create_body_result [OF b] u have x: "x = None"
    unfolding createOrUpdatePost_def b by (auto simp: catch_row_def new_result_sel)
  with u b have r: "action r = Some Updated" "createOrUpdatePost env config dc row n s = (r, s')"
    by (simp_all add: createOrUpdatePost_def catch_row_def)
  from create_body_updated [OF b [unfolded x] new_result_sel(1) r(1)] r(2)
  show "\<exists>ttl content postData s1 e s2 sl i s3.
          field row ''title'' = Some ttl \<and> field row ''content'' = Some content
          \<and> prepare_postData env config dc row ttl content s = (Inr postData, s1)
          \<and> findPostByTitle env ttl s1 = (e, s2) \<and> truthy_id e = None
          \<and> field row ''slug'' = Some sl \<and> findPostBySlug env sl s2 = (Some i, s3) \<and> i \<noteq> 0
          \<and> snd (snd (createOrUpdatePost env config dc row n s))
              = snd s3 @ [Sleep (request_delay_ms config), PostPost i postData]"
    by simp
qed


lemma row_dup_fields:
  "field row_dup ''title'' = Some ''hello   WORLD''"
  "field row_dup ''content'' = Some ''<p>Again</p>''"
  "field row_dup ''slug'' = Some ''hello-world''"
  "normalizeTitle ''hello   WORLD'' = ''hello world''"
  "trim ''hello   WORLD'' = ''hello   WORLD''"
  "trim ''hello-world'' = ''hello-world''"
  by code_simp+

lemma row_dup_prepare:
  "prepare_postData env demo_config demo_config row_dup ''hello   WORLD'' ''<p>Again</p>'' s
     = (Inr [(''title'', PStr ''hello   WORLD''), (''content'', PStr ''<p>Again</p>''),
             (''status'', PStr ''draft''), (''slug'', PStr ''hello-world'')], s)"
proof -
  have "list_all (\<lambda>k. field row_dup k = None)
     [''status'', ''excerpt'', ''acf_json'', ''categories'', ''tags'', ''featured_image_path'',
      ''featured_image_url'', ''meta_title'', ''meta_description'', ''focus_keyword'']"
    by (simp add: row_dup_def field_def)
  then show ?thesis
    by (simp add: prepare_postData_def set_field_def set_acf_def set_terms_def imagePath_def
        set_seo_def or_else_def row_dup_fields demo_config_def)
qed

lemma demo_find_hello:
  "findPostByTitle demo_env ''hello   WORLD'' (demo_site, tr)
     = (Some 5, (demo_site, tr @ [GetPostsPage (listing 1)]))"
proof -
  have "api_get_posts_page demo_env (listing 1) demo_site = (Inr [hello_post], demo_site)"
    by (simp add: demo_env_def listing_def demo_site_def)
  moreover have "scan_page ''hello world'' [hello_post] = Match 5"
    by (simp add: hello_post_def normalize_examples)
  ultimately show ?thesis
    by (simp add: findPostByTitle_def row_dup_fields find_pages_short)
qed

lemma deep_find_hello:
  "findPostByTitle deep_env ''hello   WORLD'' (demo_site, [])
     = (None, (demo_site, map (\<lambda>p. GetPostsPage (listing p)) [1..<11]))"
proof -
  have full: "\<exists>posts. api_get_posts_page deep_env (listing p) w = (Inr posts, w) \<and> length posts = 100
        \<and> scan_page ''hello world'' posts = NoMatch" if "1 \<le> p" "p \<le> 10" for p :: nat and w :: site
    using that
    by (auto simp: deep_env_def listing_def normalize_examples filler_post_def
        intro!: scan_page_replicate [where x = "''Filler''"])
  have "find_pages deep_env ''hello world'' 1 (demo_site, [])
     = (None, (demo_site, map (\<lambda>p. GetPostsPage (listing p)) [1..<11]))"
    using find_pages_cap_still [of deep_env "''hello world''" 1 "(demo_site, [])", OF full] by simp
  then show ?thesis by (simp add: findPostByTitle_def row_dup_fields)
qed

lemma deep_row_dup:
  "action (fst (createOrUpdatePost deep_env demo_config demo_config row_dup 4 (demo_site, [])))
     = Some Updated"
  "error (fst (createOrUpdatePost deep_env demo_config demo_config row_dup 4 (demo_site, []))) = None"
proof -
  have s: "findPostBySlug deep_env ''hello-world'' (demo_site, tr)
     = (Some 5, (demo_site, tr @ [GetPostsBySlug ''hello-world'']))" for tr
    by (simp add: findPostBySlug_def row_dup_fields call_def deep_env_def demo_env_def demo_site_def
        hello_post_def)
  have p: "api_post_post deep_env 5 data demo_site = (Inr hello_post, demo_site)" for data
    by (simp add: deep_env_def demo_env_def demo_site_def hello_post_def)
  have "create_body deep_env demo_config demo_config row_dup (new_result row_dup 4) (demo_site, [])
     = ((None, new_result row_dup 4\<lparr>action := Some Updated, postId := Some (post_id hello_post),
                                     status := Some (post_status hello_post)\<rparr>),
        (demo_site, map (\<lambda>p. GetPostsPage (listing p)) [1..<11]
           @ [GetPostsBySlug ''hello-world'', Sleep (request_delay_ms demo_config),
              PostPost 5 [(''title'', PStr ''hello   WORLD''), (''content'', PStr ''<p>Again</p>''),
                          (''status'', PStr ''draft''), (''slug'', PStr ''hello-world'')]]))"
    by (simp add: create_body_def row_dup_fields row_dup_prepare deep_find_hello truthy_id_def s
        submit_post_def call_def sleep_def p)
  then show "action (fst (createOrUpdatePost deep_env demo_config demo_config row_dup 4 (demo_site, [])))
     = Some Updated"
    and "error (fst (createOrUpdatePost deep_env demo_config demo_config row_dup 4 (demo_site, []))) = None"
    by (simp_all add: createOrUpdatePost_def catch_row_def new_result_sel)
qed

lemma busy_scanned:
  "scanned_posts demo_env 1 busy_site = [filler_post] @ hello_post # []"
  "list_all (other_title ''hello   WORLD'') [filler_post]"
  "same_title ''hello   WORLD'' hello_post"
  "post_id hello_post \<noteq> 0"
  "list_all (\<lambda>r. postTitleRaw (post_title r) \<noteq> None \<and> post_id r \<noteq> 0) [filler_post, hello_post]"
  by code_simp+

theorem duplicate_gate_first_witness:
  "action (fst (createOrUpdatePost demo_env demo_config demo_config row_dup 4 (busy_site, []))) = None
 \<and> error (fst (createOrUpdatePost demo_env demo_config demo_config row_dup 4 (busy_site, [])))
     = Some (''Post with title '' @ dq @ ''hello   WORLD'' @ dq
             @ '' already exists (ID: 5). Duplicate posts are not allowed.'')
 \<and> (\<exists>k\<le>10. snd (snd (createOrUpdatePost demo_env demo_config demo_config row_dup 4 (busy_site, [])))
        = map (\<lambda>p. GetPostsPage (listing p)) [1..<Suc k])
 \<and> (\<exists>d\<in>set (scanned_posts demo_env 1 busy_site). same_title ''hello   WORLD'' d
        \<and> error (fst (createOrUpdatePost demo_env demo_config demo_config row_dup 4 (busy_site, [])))
            = Some (duplicate_message ''hello   WORLD'' (post_id d)))
 \<and> (\<exists>ttl content postData s1 e s2 sl i s3.
          field row_dup ''title'' = Some ttl \<and> field row_dup ''content'' = Some content
          \<and> prepare_postData deep_env demo_config demo_config row_dup ttl content (demo_site, [])
              = (Inr postData, s1)
          \<and> findPostByTitle deep_env ttl s1 = (e, s2) \<and> truthy_id e = None
          \<and> field row_dup ''slug'' = Some sl \<and> findPostBySlug deep_env sl s2 = (Some i, s3) \<and> i \<noteq> 0
          \<and> snd (snd (createOrUpdatePost deep_env demo_config demo_config row_dup 4 (demo_site, [])))
              = snd s3 @ [Sleep (request_delay_ms demo_config), PostPost i postData])"
proof -
  have d: "decimal (post_id hello_post) = ''5''" by code_simp
  from duplicate_gate_first [of row_dup "''hello   WORLD''" "''<p>Again</p>''" demo_env demo_config
      demo_config "(busy_site, [])" _ "(busy_site, [])" "[filler_post]" hello_post "[]" 4,
      THEN conjunct1]
  have a: "action (fst (createOrUpdatePost demo_env demo_config demo_config row_dup 4 (busy_site, []))) = None
 \<and> error (fst (createOrUpdatePost demo_env demo_config demo_config row_dup 4 (busy_site, [])))
     = Some (''Post with title '' @ dq @ ''hello   WORLD'' @ dq
             @ '' already exists (ID: 5). Duplicate posts are not allowed.'')
 \<and> (\<exists>k\<le>10. snd (snd (createOrUpdatePost demo_env demo_config demo_config row_dup 4 (busy_site, [])))
        = map (\<lambda>p. GetPostsPage (listing p)) [1..<Suc k])"
    using busy_scanned by (simp add: row_dup_fields row_dup_prepare d)
  from duplicate_gate_first [of row_dup "''hello   WORLD''" "''<p>Again</p>''" demo_env demo_config
      demo_config "(busy_site, [])" _ "(busy_site, [])" _ _ _ 4 hello_post,
      THEN conjunct2, THEN conjunct1]
  have b: "\<exists>d\<in>set (scanned_posts demo_env 1 busy_site). same_title ''hello   WORLD'' d
        \<and> error (fst (createOrUpdatePost demo_env demo_config demo_config row_dup 4 (busy_site, [])))
            = Some (duplicate_message ''hello   WORLD'' (post_id d))"
    using busy_scanned by (simp add: row_dup_fields row_dup_prepare)
  from duplicate_gate_first [of row_dup _ _ deep_env demo_config demo_config "(demo_site, [])" _ _ _ _ _ 4,
      THEN conjunct2, THEN conjunct2, rule_format, OF deep_row_dup(1)] a b
  show ?thesis by blast
qed

theorem duplicate_beyond_cap_counterexample:
  "api_get_posts_page deep_env (listing 11) demo_site = (Inr [hello_post], demo_site)
 \<and> post_title hello_post = TitleObject (Some ''Hello World'') None
 \<and> normalizeTitle ''Hello World'' = normalizeTitle ''hello   WORLD''
 \<and> field row_dup ''title'' = Some ''hello   WORLD''
 \<and> field row_dup ''content'' = Some ''<p>Again</p>''
 \<and> action (fst (createOrUpdatePost deep_env demo_config demo_config row_dup 4 (demo_site, [])))
     = Some Updated
 \<and> error (fst (createOrUpdatePost deep_env demo_config demo_config row_dup 4 (demo_site, []))) = None
 \<and> scanned_posts demo_env 1 demo_site = [hello_post]
 \<and> field row_dup_no_content ''title'' = Some ''hello   WORLD''
 \<and> error (fst (createOrUpdatePost demo_env demo_config demo_config row_dup_no_content 4 (demo_site, [])))
     = Some ''Missing required field: content''
 \<and> scanned_posts locked_env 1 demo_site = [hello_post]
 \<and> field row_dup_image ''title'' = Some ''hello   WORLD''
 \<and> error (fst (createOrUpdatePost locked_env demo_config demo_config row_dup_image 4 (demo_site, [])))
     = Some ''EACCES: permission denied, open''
 \<and> scanned_posts demo_env 1 untitled_site = [untitled_post, hello_post]
 \<and> postTitleRaw (post_title untitled_post) = None
 \<and> action (fst (createOrUpdatePost demo_env demo_config demo_config row_dup 4 (untitled_site, [])))
     = Some Updated"
proof -
  have "api_get_posts_page deep_env (listing 11) demo_site = (Inr [hello_post], demo_site)"
    by (simp add: deep_env_def listing_def)
  moreover have "scanned_posts demo_env 1 demo_site = [hello_post]"
    "field row_dup_no_content ''title'' = Some ''hello   WORLD''"
    "error (fst (createOrUpdatePost demo_env demo_config demo_config row_dup_no_content 4 (demo_site, [])))
     = Some ''Missing required field: content''"
    "scanned_posts locked_env 1 demo_site = [hello_post]"
    "field row_dup_image ''title'' = Some ''hello   WORLD''"
    "error (fst (createOrUpdatePost locked_env demo_config demo_config row_dup_image 4 (demo_site, [])))
     = Some ''EACCES: permission denied, open''"
    "scanned_posts demo_env 1 untitled_site = [untitled_post, hello_post]"
    "postTitleRaw (post_title untitled_post) = None"
    "action (fst (createOrUpdatePost demo_env demo_config demo_config row_dup 4 (untitled_site, [])))
     = Some Updated"
    by code_simp+
  ultimately show ?thesis using deep_row_dup
    by (simp add: hello_post_def row_dup_fields normalize_examples)
qed

section \<open>Pacing of a row\<close>

lemma delayed_after_mono: "delayed_after False es \<Longrightarrow> delayed_after b es"
  by (cases es) auto

lemma delayed_after_append:
  "delayed_after b xs \<Longrightarrow> delayed_after False ys \<Longrightarrow> delayed_after b (xs @ ys)"
  by (induction xs arbitrary: b) (auto intro: delayed_after_mono)

lemma extends_by_refl: "extends_by 0 s s"
  by (simp add: extends_by_def writes_delayed_def)

lemma extends_by_trans:
  "extends_by j s s1 \<Longrightarrow> extends_by k s1 s2 \<Longrightarrow> extends_by (j + k) s s2"
  unfolding extends_by_def writes_delayed_def
  by (elim exE conjE, rule_tac x = "ext @ exta" in exI) (simp add: delayed_after_append)

lemma extends_by_trans0: "extends_by k s s1 \<Longrightarrow> extends_by 0 s1 s2 \<Longrightarrow> extends_by k s s2"
  using extends_by_trans [of k s s1 0 s2] by simp

lemma extends_by_0trans: "extends_by 0 s s1 \<Longrightarrow> extends_by k s1 s2 \<Longrightarrow> extends_by k s s2"
  using extends_by_trans [of 0 s s1 k s2] by simp

lemma call_read:
  "call f ev s = (r, s') \<Longrightarrow> \<not> is_write ev \<Longrightarrow> \<not> is_sleep ev \<Longrightarrow> extends_by 0 s s'"
  by (auto simp: call_def extends_by_def writes_delayed_def split: prod.splits)

lemma write_not_sleep: "is_write ev \<Longrightarrow> \<not> is_sleep ev"
  by (cases ev) simp_all

lemma call_write:
  "call f ev (sleep ms s) = (r, s') \<Longrightarrow> is_write ev \<Longrightarrow> extends_by 0 s s'"
  unfolding extends_by_def writes_delayed_def
  by (rule exI [of _ "[Sleep ms, ev]"])
     (auto simp: call_def sleep_def write_not_sleep split: prod.splits)

lemma sleep_ext: "extends_by 1 s (sleep ms s)"
  unfolding extends_by_def writes_delayed_def
  by (rule exI [of _ "[Sleep ms]"]) (simp add: sleep_def)

lemma getOrCreateTerm_ext:
  "getOrCreateTerm env config name taxonomy s = (r, s') \<Longrightarrow> extends_by 0 s s'"
  unfolding getOrCreateTerm_def
  by (auto split: if_splits prod.splits sum.splits option.splits
      intro: extends_by_refl call_read [where ev = "GetTerms _ _"]
        extends_by_trans0 [OF call_read [where ev = "GetTerms _ _"] call_write [where ev = "PostTerm _ _"]])

lemma resolve_names_ext:
  "resolve_names env config taxonomy names ids s = (r, s') \<Longrightarrow> extends_by (length names) s s'"
proof (induction names arbitrary: ids s)
  case Nil
  then show ?case by (simp add: extends_by_refl)
next
  case (Cons name names)
  obtain i s1 where g: "getOrCreateTerm env config name taxonomy s = (i, s1)"
    by (metis prod.exhaust)
  with Cons.prems have "extends_by (length names) (sleep (request_delay_ms config) s1) s'"
    by (auto intro: Cons.IH)
  with extends_by_trans0 [OF _ getOrCreateTerm_ext [OF g], of 0 s] sleep_ext [of s1 "request_delay_ms config"]
  have "extends_by (1 + length names) s s'"
    by (meson extends_by_0trans extends_by_refl extends_by_trans getOrCreateTerm_ext g)
  then show ?case by simp
qed

lemma set_terms_ext:
  "set_terms env config row taxonomy data s = (r, s') \<Longrightarrow> extends_by (term_count row taxonomy) s s'"
proof -
  assume a: "set_terms env config row taxonomy data s = (r, s')"
  show ?thesis
  proof (cases "field row taxonomy")
    case None
    with a show ?thesis by (simp add: set_terms_def term_count_def extends_by_refl)
  next
    case (Some v)
    then have ne: "trim (raw row taxonomy) \<noteq> []"
      by (auto simp: field_def raw_def split: option.splits if_splits)
    obtain ids s1 where r: "resolve_names env config taxonomy (term_names (raw row taxonomy)) [] s = (ids, s1)"
      by (metis prod.exhaust)
    with a Some ne have "s' = s1" by (simp add: set_terms_def resolveTerms_def)
    with resolve_names_ext [OF r] Some show ?thesis by (simp add: term_count_def)
  qed
qed

lemma listing_ext:
  "extends_by 0 (w, tr) (w', tr @ map (\<lambda>p. GetPostsPage (listing p)) ps)"
proof -
  have "delayed_after b (map (\<lambda>p. GetPostsPage (listing p)) ps)" for b
    by (induction ps arbitrary: b) simp_all
  moreover have "filter is_sleep (map (\<lambda>p. GetPostsPage (listing p)) ps) = []"
    "filter is_write (map (\<lambda>p. GetPostsPage (listing p)) ps) = []"
    by (induction ps) simp_all
  ultimately show ?thesis by (simp add: extends_by_def writes_delayed_def)
qed

lemma findPostByTitle_ext: "findPostByTitle env ttl s = (r, s') \<Longrightarrow> extends_by 0 s s'"
proof -
  assume a: "findPostByTitle env ttl s = (r, s')"
  show ?thesis
  proof (cases "trim ttl = []")
    case True
    with a show ?thesis by (simp add: findPostByTitle_def extends_by_refl)
  next
    case False
    from find_pages_trace [of 1 env "normalizeTitle ttl" s] a False
    obtain k where "snd s' = snd s @ map (\<lambda>p. GetPostsPage (listing p)) [1..<1 + k]"
      by (auto simp: findPostByTitle_def)
    with listing_ext [of "fst s" "snd s" "fst s'" "[1..<1 + k]"] show ?thesis
      by (metis prod.collapse)
  qed
qed

lemma findPostBySlug_ext: "findPostBySlug env slug s = (r, s') \<Longrightarrow> extends_by 0 s s'"
  unfolding findPostBySlug_def
  by (auto split: if_splits prod.splits sum.splits list.splits
      intro: extends_by_refl call_read [where ev = "GetPostsBySlug _"])

lemma findPostById_ext: "findPostById env ref s = (r, s') \<Longrightarrow> extends_by 0 s s'"
  unfolding findPostById_def
  by (auto split: if_splits prod.splits sum.splits
      intro: extends_by_refl call_read [where ev = "GetPost _"])

lemma send_media_ext: "send_media env ms b n m s = (r, s') \<Longrightarrow> extends_by 0 s s'"
  unfolding send_media_def
  by (auto split: prod.splits sum.splits intro: call_write [where ev = "PostMedia _ _"])

lemma downloadImageFromUrl_ext: "downloadImageFromUrl env u s = (r, s') \<Longrightarrow> extends_by 0 s s'"
  unfolding downloadImageFromUrl_def
  by (auto split: prod.splits sum.splits intro: call_read [where ev = "AxiosGet _"])

lemma downloadImageFromUrl_update_ext:
  "downloadImageFromUrl_update env u s = (r, s') \<Longrightarrow> extends_by 0 s s'"
  unfolding downloadImageFromUrl_update_def
  by (auto split: prod.splits sum.splits intro: call_read [where ev = "AxiosGet _"])

lemma local_media_ext: "local_media env ms p s = (r, s') \<Longrightarrow> extends_by 0 s s'"
  unfolding local_media_def
  by (auto split: prod.splits sum.splits bool.splits
      intro: call_read [where ev = "ExistsSync _"]
        extends_by_trans0 [OF call_read [where ev = "ExistsSync _"] call_read [where ev = "ReadFileSync _"]]
        extends_by_trans0 [OF extends_by_trans0 [OF call_read [where ev = "ExistsSync _"]
            call_read [where ev = "ReadFileSync _"]] send_media_ext])

lemma uploadMedia_ext: "uploadMedia env dc src s = (r, s') \<Longrightarrow> extends_by 0 s s'"
  unfolding uploadMedia_def
  by (auto split: if_splits prod.splits option.splits
      intro: extends_by_refl local_media_ext downloadImageFromUrl_ext
        extends_by_trans0 [OF downloadImageFromUrl_ext send_media_ext])

lemma uploadMedia_update_ext: "uploadMedia_update env dc src s = (r, s') \<Longrightarrow> extends_by 0 s s'"
  unfolding uploadMedia_update_def
  by (auto split: if_splits prod.splits option.splits
      intro: extends_by_refl local_media_ext downloadImageFromUrl_update_ext
        extends_by_trans0 [OF downloadImageFromUrl_update_ext send_media_ext])


lemma prepare_postData_ext:
  assumes "prepare_postData env config dc row ttl content s = (r, s')"
  shows "extends_by (term_count row ''categories'' + term_count row ''tags'') s s'"
proof -
  obtain d1 s1 where 1: "set_terms env config row ''categories''
             (set_acf env row (set_field row ''excerpt'' (set_field row ''slug''
                [(''title'', PStr ttl), (''content'', PStr content),
                 (''status'', PStr (or_else (field row ''status'') (default_status config)))]))) s = (d1, s1)"
    by (metis prod.exhaust)
  obtain d2 s2 where 2: "set_terms env config row ''tags'' d1 s1 = (d2, s2)"
    by (metis prod.exhaust)
  have t: "extends_by (term_count row ''categories'' + term_count row ''tags'') s s2"
    using extends_by_trans [OF set_terms_ext [OF 1] set_terms_ext [OF 2]] .
  show ?thesis
  proof (cases "imagePath row")
    case None
    with assms 1 2 have "s' = s2" by (simp add: prepare_postData_def)
    with t show ?thesis by simp
  next
    case (Some p)
    obtain m s3 where 3: "uploadMedia env dc p s2 = (m, s3)" by (metis prod.exhaust)
    with assms 1 2 Some have "s' = s3" by (auto simp: prepare_postData_def split: sum.splits)
    with extends_by_trans0 [OF t uploadMedia_ext [OF 3]] show ?thesis by simp
  qed
qed

lemma prepare_updateData_ext:
  assumes "prepare_updateData env config row s = (r, s')"
  shows "extends_by (term_count row ''categories'' + term_count row ''tags'') s s'"
proof -
  obtain d1 s1 where 1: "set_terms env config row ''categories''
             (set_acf env row (set_field row ''excerpt'' (set_field row ''slug''
                (set_field row ''status'' (set_field row ''content'' (set_field row ''title'' [])))))) s
       = (d1, s1)"
    by (metis prod.exhaust)
  obtain d2 s2 where 2: "set_terms env config row ''tags'' d1 s1 = (d2, s2)"
    by (metis prod.exhaust)
  have t: "extends_by (term_count row ''categories'' + term_count row ''tags'') s s2"
    using extends_by_trans [OF set_terms_ext [OF 1] set_terms_ext [OF 2]] .
  show ?thesis
  proof (cases "imagePath row")
    case None
    with assms 1 2 have "s' = s2" by (simp add: prepare_updateData_def)
    with t show ?thesis by simp
  next
    case (Some p)
    obtain m s3 where 3: "uploadMedia_update env config p s2 = (m, s3)" by (metis prod.exhaust)
    with assms 1 2 Some have "s' = s3" by (auto simp: prepare_updateData_def split: sum.splits)
    with extends_by_trans0 [OF t uploadMedia_update_ext [OF 3]] show ?thesis by simp
  qed
qed

lemma submit_post_ext: "submit_post env config pd ex result s = (r, s') \<Longrightarrow> extends_by 0 s s'"
  unfolding submit_post_def
  by (auto split: option.splits prod.splits sum.splits
      intro: call_write [where ev = "PostPost _ _"] call_write [where ev = "PostPosts _"])

lemma resolve_target_ext: "resolve_target env row s = (r, s') \<Longrightarrow> extends_by 0 s s'"
  unfolding resolve_target_def
  by (auto split: option.splits prod.splits
      intro: extends_by_refl findPostById_ext findPostBySlug_ext findPostByTitle_ext)

lemma create_body_ext:
  assumes "create_body env config dc row result s = (r, s')"
  shows "\<exists>k\<le>term_count row ''categories'' + term_count row ''tags''. extends_by k s s'"
proof (cases "\<exists>ttl content. field row ''title'' = Some ttl \<and> field row ''content'' = Some content")
  case False
  with assms have "s' = s" by (auto simp: create_body_def split: option.splits)
  then show ?thesis using extends_by_refl by blast
next
  case True
  then obtain ttl content where f: "field row ''title'' = Some ttl" "field row ''content'' = Some content"
    by blast
  obtain p s1 where 1: "prepare_postData env config dc row ttl content s = (p, s1)"
    by (metis prod.exhaust)
  note e1 = prepare_postData_ext [OF 1]
  obtain e s2 where 2: "findPostByTitle env ttl s1 = (e, s2)" by (metis prod.exhaust)
  note e2 = extends_by_trans0 [OF e1 findPostByTitle_ext [OF 2]]
  obtain i s3 where 3: "(case field row ''slug'' of Some slug \<Rightarrow> findPostBySlug env slug s2
                          | None \<Rightarrow> (None, s2)) = (i, s3)"
    by (metis prod.exhaust)
  have "extends_by 0 s2 s3"
    using 3 by (auto split: option.splits intro: extends_by_refl findPostBySlug_ext)
  note e3 = extends_by_trans0 [OF e2 this]
  have "s' = s1 \<or> s' = s2 \<or> (\<exists>pd. submit_post env config pd i result s3 = (r, s'))"
    using assms f 1 2 3 by (auto simp: create_body_def split: sum.splits option.splits)
  then have "extends_by (term_count row ''categories'' + term_count row ''tags'') s s'"
    using e1 e2 e3 by (auto dest: submit_post_ext intro: extends_by_trans0)
  then show ?thesis by blast
qed

lemma update_body_ext:
  assumes "update_body env config row result s = (r, s')"
  shows "\<exists>k\<le>term_count row ''categories'' + term_count row ''tags''. extends_by k s s'"
proof -
  obtain t s1 where 1: "resolve_target env row s = (t, s1)" by (metis prod.exhaust)
  note e1 = resolve_target_ext [OF 1]
  show ?thesis
  proof (cases t)
    case (Inl e)
    with assms 1 have "s' = s1" by (simp add: update_body_def)
    with e1 show ?thesis by blast
  next
    case (Inr i)
    obtain g s2 where 2: "call (api_get_post env (decimal i)) (GetPost (decimal i)) s1 = (g, s2)"
      by (metis prod.exhaust)
    have e2: "extends_by 0 s s2" using extends_by_trans0 [OF e1 call_read [OF 2]] by simp
    show ?thesis
    proof (cases g)
      case (Inl e)
      with assms 1 2 Inr have "s' = s2" by (simp add: update_body_def)
      with e2 show ?thesis by blast
    next
      case g: (Inr existingPost)
      obtain p s3 where 3: "prepare_updateData env config row s2 = (p, s3)" by (metis prod.exhaust)
      note e3 = extends_by_0trans [OF e2 prepare_updateData_ext [OF 3]]
      have "s' = s3 \<or> (\<exists>d x. call (api_post_post env i d) (PostPost i d)
                              (sleep (request_delay_ms config) s3) = (x, s'))"
        using assms 1 2 3 Inr g
        by (auto simp: update_body_def split: sum.splits prod.splits if_splits)
      then have "extends_by (term_count row ''categories'' + term_count row ''tags'') s s'"
        using e3 by (auto dest: call_write intro: extends_by_trans0)
      then show ?thesis by blast
    qed
  qed
qed

text \<open>
  Claim C7, as the code has it: in the calls of a row, of either mode, every write (a new
  term, a media upload, a new post, an update of a post) stands right after a pacing
  delay: the delay is awaited before the write, not after it. The only other delays are
  those of term resolution, one after each category or tag name, whether the name was
  found by the taxonomy search or created: the delays of a row are as many as its writes
  and at most that many names more, and those of the resolution of a list of names as
  many as its writes and names.
\<close>

theorem writes_follow_delay:
  "(\<exists>k\<le>term_count row ''categories'' + term_count row ''tags''. \<exists>ext.
       snd (snd (createOrUpdatePost env config dc row n s)) = snd s @ ext \<and> writes_delayed ext
       \<and> length (filter is_sleep ext) = k + length (filter is_write ext))
 \<and> (\<exists>k\<le>term_count row ''categories'' + term_count row ''tags''. \<exists>ext.
       snd (snd (updatePost env config row n s)) = snd s @ ext \<and> writes_delayed ext
       \<and> length (filter is_sleep ext) = k + length (filter is_write ext))
 \<and> (\<exists>ext. snd (snd (resolve_names env config taxonomy names [] s)) = snd s @ ext
       \<and> writes_delayed ext
       \<and> length (filter is_sleep ext) = length names + length (filter is_write ext))"
proof (intro conjI)
  obtain r s' where b: "create_body env config dc row (new_result row n) s = (r, s')"
    by (metis prod.exhaust)
  then have "snd (createOrUpdatePost env config dc row n s) = s'"
    by (cases r) (auto simp: createOrUpdatePost_def catch_row_def split: option.splits)
  with create_body_ext [OF b]
  show "\<exists>k\<le>term_count row ''categories'' + term_count row ''tags''. \<exists>ext.
       snd (snd (createOrUpdatePost env config dc row n s)) = snd s @ ext \<and> writes_delayed ext
       \<and> length (filter is_sleep ext) = k + length (filter is_write ext)"
    by (simp add: extends_by_def)
next
  obtain r s' where b: "update_body env config row (new_result row n) s = (r, s')"
    by (metis prod.exhaust)
  then have "snd (updatePost env config row n s) = s'"
    by (cases r) (auto simp: updatePost_def catch_row_def split: option.splits)
  with update_body_ext [OF b]
  show "\<exists>k\<le>term_count row ''categories'' + term_count row ''tags''. \<exists>ext.
       snd (snd (updatePost env config row n s)) = snd s @ ext \<and> writes_delayed ext
       \<and> length (filter is_sleep ext) = k + length (filter is_write ext)"
    by (simp add: extends_by_def)
next
  obtain r s' where b: "resolve_names env config taxonomy names [] s = (r, s')"
    by (metis prod.exhaust)
  from resolve_names_ext [OF b] b
  show "\<exists>ext. snd (snd (resolve_names env config taxonomy names [] s)) = snd s @ ext
       \<and> writes_delayed ext
       \<and> length (filter is_sleep ext) = length names + length (filter is_write ext)"
    by (simp add: extends_by_def)
qed

lemma news_trace:
  "snd (snd (createOrUpdatePost demo_env demo_config demo_config row_news 6 ([], [])))
     = [GetTerms ''categories'' ''News'', Sleep 300, GetPostsPage (listing 1), Sleep 300,
        PostPosts [(''title'', PStr ''Fresh Post''), (''content'', PStr ''<p>Text</p>''),
                   (''status'', PStr ''draft''), (''categories'', PIds [4])]]"
  by code_simp

lemma news_counts:
  "term_count row_news ''categories'' = 1" "term_count row_news ''tags'' = 0"
  by code_simp+

theorem writes_follow_delay_witness:
  "\<exists>k\<le>1. \<exists>ext.
       snd (snd (createOrUpdatePost demo_env demo_config demo_config row_news 6 ([], []))) = ext
       \<and> writes_delayed ext
       \<and> length (filter is_sleep ext) = k + length (filter is_write ext)"
  using writes_follow_delay [of row_news demo_env demo_config demo_config 6 "([], [])", THEN conjunct1]
  by (simp add: news_counts)

theorem pacing_of_lookup_counterexample:
  "snd (snd (createOrUpdatePost demo_env demo_config demo_config row_news 6 ([], [])))
     = [GetTerms ''categories'' ''News'', Sleep 300, GetPostsPage (listing 1), Sleep 300,
        PostPosts [(''title'', PStr ''Fresh Post''), (''content'', PStr ''<p>Text</p>''),
                   (''status'', PStr ''draft''), (''categories'', PIds [4])]]
 \<and> \<not> delays_by_writes False
        (snd (snd (createOrUpdatePost demo_env demo_config demo_config row_news 6 ([], []))))"
  by (simp add: news_trace)


section \<open>Media ingestion of the two scripts\<close>

text \<open>
  Claim C6 says that the update script ingests media as the upload script does. The
  update script has neither the rewrite of share links nor the check for an HTML
  answer: for a share link whose download answers with an HTML page, the upload script
  fetches the direct link and returns \<^verbatim>\<open>null\<close> without uploading, and the update script
  fetches the link as given and uploads the page.
\<close>

theorem update_media_uploads_html_page:
  "uploadMedia demo_env demo_config ''https://drive.google.com/file/d/ABC123/view'' (demo_site, [])
     = (Inr None, (demo_site, [AxiosGet ''https://drive.google.com/uc?export=download&id=ABC123'']))
 \<and> uploadMedia_update demo_env demo_config ''https://drive.google.com/file/d/ABC123/view'' (demo_site, [])
     = (Inr (Some 9),
        (demo_site, [AxiosGet ''https://drive.google.com/file/d/ABC123/view'', Sleep 300,
                     PostMedia ''text/html; charset=utf-8'' ''view'']))"
  by code_simp

end
